(* ===== verification/Scrub_Prelude.thy ===== *)
theory Scrub_Prelude
  imports Main "HOL-Library.Word"
begin

text \<open>
  What every other theory of the development shares: the C integer types of the
  kernel as fixed-width words, the error numbers the code returns, checked reads
  of C buffers, runs of disk sectors, and the lemmas on words and lists that the
  component proofs rest on.

  The kernel is built for amd64, so \<open>int\<close> is 32 bits, \<open>long\<close> and \<open>long long\<close> are
  64 bits. Unsigned quantities are words. A C \<open>int\<close> whose value is only compared and
  copied is a HOL \<open>int\<close>, with the truncation written out where a wider value is
  converted (\<open>s32_of\<close>).
\<close>

unbundle bit_operations_syntax

section \<open>C types\<close>

type_synonym u8 = "8 word"
type_synonym u16 = "16 word"
type_synonym u32 = "32 word"
type_synonym u64 = "64 word"
type_synonym sector_t = u64

definition s32_of :: "u64 \<Rightarrow> int" where
  "s32_of w = sint (ucast w :: u32)"

section \<open>Error numbers\<close>

abbreviation (input) EPERM :: int where "EPERM \<equiv> 1"
abbreviation (input) EIO :: int where "EIO \<equiv> 5"
abbreviation (input) ENXIO :: int where "ENXIO \<equiv> 6"
abbreviation (input) ENOMEM :: int where "ENOMEM \<equiv> 12"
abbreviation (input) EFAULT :: int where "EFAULT \<equiv> 14"
abbreviation (input) EINVAL :: int where "EINVAL \<equiv> 22"
abbreviation (input) ENOTTY :: int where "ENOTTY \<equiv> 25"

section \<open>C strings\<close>

text \<open>
  A NUL-terminated string is the list of its characters before the NUL. Reading at the
  terminator gives NUL.
\<close>

abbreviation (input) NUL :: char where "NUL \<equiv> CHR 0x00"
abbreviation (input) NL :: char where "NL \<equiv> CHR 0x0A"

definition char_at :: "string \<Rightarrow> nat \<Rightarrow> char" where
  "char_at s i = (if i < length s then s ! i else NUL)"

lemma char_at_Nil [simp]: "char_at [] i = NUL"
  by (simp add: char_at_def)

lemma char_at_Cons_0 [simp]: "char_at (c # s) 0 = c"
  by (simp add: char_at_def)

lemma char_at_Cons_Suc [simp]: "char_at (c # s) (Suc i) = char_at s i"
  by (simp add: char_at_def)

section \<open>Checked reads of a buffer\<close>

text \<open>
  \<open>fetch buf i\<close> is \<open>buf[i]\<close>: \<open>None\<close> stands for a read past the end of the object,
  which C leaves undefined.
\<close>

definition fetch :: "'a list \<Rightarrow> nat \<Rightarrow> 'a option" where
  "fetch buf i = (if i < length buf then Some (buf ! i) else None)"

lemma fetch_in [simp]: "i < length buf \<Longrightarrow> fetch buf i = Some (buf ! i)"
  by (simp add: fetch_def)

lemma fetch_out [simp]: "length buf \<le> i \<Longrightarrow> fetch buf i = None"
  by (simp add: fetch_def)

lemma fetch_eq_None: "fetch buf i = None \<longleftrightarrow> length buf \<le> i"
  by (simp add: fetch_def)

section \<open>Runs of sectors\<close>

text \<open>A request \<open>(pos, n)\<close> addresses the \<open>n\<close> sectors from \<open>pos\<close> on.\<close>

type_synonym req = "u64 \<times> u64"

definition sectors :: "req \<Rightarrow> nat list" where
  "sectors r = [unat (fst r) ..< unat (fst r) + unat (snd r)]"

definition all_sectors :: "req list \<Rightarrow> nat list" where
  "all_sectors rs = concat (map sectors rs)"

lemma all_sectors_Nil [simp]: "all_sectors [] = []"
  by (simp add: all_sectors_def)

lemma all_sectors_Cons [simp]: "all_sectors (r # rs) = sectors r @ all_sectors rs"
  by (simp add: all_sectors_def)

lemma all_sectors_append [simp]: "all_sectors (rs @ rs') = all_sectors rs @ all_sectors rs'"
  by (simp add: all_sectors_def)

lemma set_all_sectors: "set (all_sectors rs) = (\<Union>r\<in>set rs. set (sectors r))"
  by (simp add: all_sectors_def)

section \<open>Word arithmetic without wrap-around\<close>

lemma unat_add_nowrap:
  fixes a b :: "'a::len word"
  assumes "unat a + unat b < 2 ^ LENGTH('a)"
  shows "unat (a + b) = unat a + unat b"
  using assms by (simp add: unat_word_ariths)

lemma unat_sub_le:
  fixes a b :: "'a::len word"
  assumes "b \<le> a"
  shows "unat (a - b) = unat a - unat b"
  using assms by (simp add: unat_sub)

lemma unat_mult_nowrap:
  fixes a b :: "'a::len word"
  assumes "unat a * unat b < 2 ^ LENGTH('a)"
  shows "unat (a * b) = unat a * unat b"
  using assms by (simp add: unat_word_ariths)

lemma unat_u8_less: "unat (a :: u8) < 256"
  using unsigned_less [of a] by simp

lemma unat_u64_less: "unat (a :: u64) < 2 ^ 64"
  using unsigned_less [of a] by simp

lemma unat_u32_less: "unat (a :: u32) < 2 ^ 32"
  using unsigned_less [of a] by simp

lemma unat_pos_iff: "0 < unat (a :: 'a::len word) \<longleftrightarrow> a \<noteq> 0"
  by (simp add: unat_gt_0)

lemma uint_le_of_unat_le: "unat w \<le> n \<Longrightarrow> uint w \<le> int n"
  unfolding unat_eq_nat_uint by (simp only: nat_le_iff)

lemma le_uint_of_le_unat: "n \<le> unat w \<Longrightarrow> int n \<le> uint w"
  unfolding unat_eq_nat_uint using uint_ge_0 [of w] by linarith

lemma unat_less_exp: "unat (w :: 'a::len word) < 2 ^ LENGTH('a)"
  by (rule unsigned_less)

lemma unat_of_nat_u32: "n < 2 ^ 32 \<Longrightarrow> unat (of_nat n :: u32) = n"
  by (simp add: unat_of_nat)

lemma unat_of_nat_u64: "n < 2 ^ 64 \<Longrightarrow> unat (of_nat n :: u64) = n"
  by (simp add: unsigned_of_nat take_bit_nat_eq_self)

lemma distinct_concat_map:
  assumes "distinct is" and "\<And>i. i \<in> set is \<Longrightarrow> distinct (f i)"
    and "\<And>i j x. i \<in> set is \<Longrightarrow> j \<in> set is \<Longrightarrow> x \<in> set (f i) \<Longrightarrow> x \<in> set (f j) \<Longrightarrow> i = j"
  shows "distinct (concat (map f is))"
  using assms
proof (induction "is")
  case (Cons i "is")
  have "distinct (concat (map f is))"
    by (rule Cons.IH) (use Cons.prems in auto)
  moreover have "x \<notin> set (f j)" if "x \<in> set (f i)" "j \<in> set is" for x j
  proof
    assume "x \<in> set (f j)"
    then have "i = j" using Cons.prems(3) [of i j x] that by simp
    with that(2) Cons.prems(1) show False by simp
  qed
  ultimately show ?case using Cons.prems(2) by auto
qed simp

end
