(* ===== verification/Scsi_Sense.thy ===== *)
theory Scsi_Sense
  imports Scrub_Prelude "HOL-Library.Monad_Syntax"
begin

text \<open>
  The sense-data parsers of \<^verbatim>\<open>block/scrub_verify.c\<close>: \<open>sg_scsi_normalize_sense\<close>,
  \<open>sg_err_category_sense\<close>, \<open>sg_scsi_sense_desc_find\<close>, \<open>sg_get_sense_info_fld\<close> and the status
  text. A sense buffer is the list of its bytes and every \<open>sensep[i]\<close> is a checked
  \<^const>\<open>fetch\<close>, so a result \<open>None\<close> means that the C code read outside the buffer.
\<close>

section \<open>Constants\<close>

abbreviation (input) SPC_SK_NO_SENSE :: u8 where "SPC_SK_NO_SENSE \<equiv> 0x0"
abbreviation (input) SPC_SK_RECOVERED_ERROR :: u8 where "SPC_SK_RECOVERED_ERROR \<equiv> 0x1"
abbreviation (input) SPC_SK_NOT_READY :: u8 where "SPC_SK_NOT_READY \<equiv> 0x2"
abbreviation (input) SPC_SK_MEDIUM_ERROR :: u8 where "SPC_SK_MEDIUM_ERROR \<equiv> 0x3"
abbreviation (input) SPC_SK_HARDWARE_ERROR :: u8 where "SPC_SK_HARDWARE_ERROR \<equiv> 0x4"
abbreviation (input) SPC_SK_ILLEGAL_REQUEST :: u8 where "SPC_SK_ILLEGAL_REQUEST \<equiv> 0x5"
abbreviation (input) SPC_SK_UNIT_ATTENTION :: u8 where "SPC_SK_UNIT_ATTENTION \<equiv> 0x6"
abbreviation (input) SPC_SK_BLANK_CHECK :: u8 where "SPC_SK_BLANK_CHECK \<equiv> 0x8"
abbreviation (input) SPC_SK_ABORTED_COMMAND :: u8 where "SPC_SK_ABORTED_COMMAND \<equiv> 0xb"

abbreviation (input) SG_LIB_CAT_NOT_READY :: int where "SG_LIB_CAT_NOT_READY \<equiv> 2"
abbreviation (input) SG_LIB_CAT_MEDIUM_HARD :: int where "SG_LIB_CAT_MEDIUM_HARD \<equiv> 3"
abbreviation (input) SG_LIB_CAT_MEDIUM_HARD_WITH_INFO :: int where "SG_LIB_CAT_MEDIUM_HARD_WITH_INFO \<equiv> 18"
abbreviation (input) SG_LIB_CAT_ILLEGAL_REQ :: int where "SG_LIB_CAT_ILLEGAL_REQ \<equiv> 5"
abbreviation (input) SG_LIB_CAT_UNIT_ATTENTION :: int where "SG_LIB_CAT_UNIT_ATTENTION \<equiv> 6"
abbreviation (input) SG_LIB_CAT_INVALID_OP :: int where "SG_LIB_CAT_INVALID_OP \<equiv> 9"
abbreviation (input) SG_LIB_CAT_ABORTED_COMMAND :: int where "SG_LIB_CAT_ABORTED_COMMAND \<equiv> 11"
abbreviation (input) SG_LIB_CAT_NO_SENSE :: int where "SG_LIB_CAT_NO_SENSE \<equiv> 20"
abbreviation (input) SG_LIB_CAT_RECOVERED :: int where "SG_LIB_CAT_RECOVERED \<equiv> 21"
abbreviation (input) SG_LIB_CAT_SENSE :: int where "SG_LIB_CAT_SENSE \<equiv> 98"
abbreviation (input) SG_LIB_CAT_OTHER :: int where "SG_LIB_CAT_OTHER \<equiv> 99"

section \<open>The sense header\<close>

record sg_scsi_sense_hdr =
  response_code :: u8
  sense_key :: u8
  asc :: u8
  ascq :: u8
  byte4 :: u8
  byte5 :: u8
  byte6 :: u8
  additional_length :: u8

definition zero_sense_hdr :: sg_scsi_sense_hdr where
  "zero_sense_hdr = \<lparr>response_code = 0, sense_key = 0, asc = 0, ascq = 0,
     byte4 = 0, byte5 = 0, byte6 = 0, additional_length = 0\<rparr>"

text \<open>\<open>if (cond) field = f(sensep[i]);\<close>\<close>

definition set_if :: "bool \<Rightarrow> u8 list \<Rightarrow> nat \<Rightarrow> (u8 \<Rightarrow> 'h \<Rightarrow> 'h) \<Rightarrow> 'h \<Rightarrow> 'h option" where
  "set_if c buf i upd h = (if c then map_option (\<lambda>x. upd x h) (fetch buf i) else Some h)"

text \<open>
  \<open>sshp\<close> is never NULL in this file (the only caller passes the address of a local), so
  the header is returned with the code's return value.
\<close>

definition normalize_descriptor :: "u8 list \<Rightarrow> int \<Rightarrow> sg_scsi_sense_hdr \<Rightarrow> sg_scsi_sense_hdr option" where
  "normalize_descriptor b sb_len h0 = do {
     h1 \<leftarrow> set_if (sb_len > 1) b 1 (\<lambda>x h. h\<lparr>sense_key := 0xf AND x\<rparr>) h0;
     h2 \<leftarrow> set_if (sb_len > 2) b 2 (\<lambda>x h. h\<lparr>asc := x\<rparr>) h1;
     h3 \<leftarrow> set_if (sb_len > 3) b 3 (\<lambda>x h. h\<lparr>ascq := x\<rparr>) h2;
     set_if (sb_len > 7) b 7 (\<lambda>x h. h\<lparr>additional_length := x\<rparr>) h3 }"

definition normalize_fixed :: "u8 list \<Rightarrow> int \<Rightarrow> sg_scsi_sense_hdr \<Rightarrow> sg_scsi_sense_hdr option" where
  "normalize_fixed b sb_len h0 = do {
     h1 \<leftarrow> set_if (sb_len > 2) b 2 (\<lambda>x h. h\<lparr>sense_key := 0xf AND x\<rparr>) h0;
     if sb_len > 7 then do {
       b7 \<leftarrow> fetch b 7;
       let len = (if sb_len < uint b7 + 8 then sb_len else uint b7 + 8);
       h2 \<leftarrow> set_if (len > 12) b 12 (\<lambda>x h. h\<lparr>asc := x\<rparr>) h1;
       set_if (len > 13) b 13 (\<lambda>x h. h\<lparr>ascq := x\<rparr>) h2 }
     else Some h1 }"

definition sg_scsi_normalize_sense ::
    "u8 list option \<Rightarrow> int \<Rightarrow> (int \<times> sg_scsi_sense_hdr) option" where
  "sg_scsi_normalize_sense sensep sb_len =
     (case sensep of
        None \<Rightarrow> Some (0, zero_sense_hdr)
      | Some b \<Rightarrow>
          if sb_len = 0 then Some (0, zero_sense_hdr)
          else do {
            b0 \<leftarrow> fetch b 0;
            if 0x70 \<noteq> 0x70 AND b0 then Some (0, zero_sense_hdr)
            else do {
              let h = zero_sense_hdr\<lparr>response_code := 0x7f AND b0\<rparr>;
              h' \<leftarrow> (if response_code h \<ge> 0x72 then normalize_descriptor b sb_len h
                     else normalize_fixed b sb_len h);
              Some (1, h') } })"

section \<open>The category of a sense buffer\<close>

definition category_of_key :: "sg_scsi_sense_hdr \<Rightarrow> int" where
  "category_of_key ssh =
     (if sense_key ssh = SPC_SK_NO_SENSE then SG_LIB_CAT_NO_SENSE
      else if sense_key ssh = SPC_SK_RECOVERED_ERROR then SG_LIB_CAT_RECOVERED
      else if sense_key ssh = SPC_SK_NOT_READY then SG_LIB_CAT_NOT_READY
      else if sense_key ssh \<in> {SPC_SK_MEDIUM_ERROR, SPC_SK_HARDWARE_ERROR, SPC_SK_BLANK_CHECK}
        then SG_LIB_CAT_MEDIUM_HARD
      else if sense_key ssh = SPC_SK_UNIT_ATTENTION then SG_LIB_CAT_UNIT_ATTENTION
      else if sense_key ssh = SPC_SK_ILLEGAL_REQUEST
        then (if asc ssh = 0x20 \<and> ascq ssh = 0x0 then SG_LIB_CAT_INVALID_OP
              else SG_LIB_CAT_ILLEGAL_REQ)
      else if sense_key ssh = SPC_SK_ABORTED_COMMAND then SG_LIB_CAT_ABORTED_COMMAND
      else SG_LIB_CAT_SENSE)"

definition sg_err_category_sense :: "u8 list option \<Rightarrow> int \<Rightarrow> int option" where
  "sg_err_category_sense sense_buffer sb_len =
     (if sense_buffer \<noteq> None \<and> sb_len > 2
      then map_option
             (\<lambda>(r, ssh). if r \<noteq> 0 then category_of_key ssh else SG_LIB_CAT_SENSE)
             (sg_scsi_normalize_sense sense_buffer sb_len)
      else Some SG_LIB_CAT_SENSE)"

section \<open>Descriptors and the information field\<close>

text \<open>
  The loop of \<open>sg_scsi_sense_desc_find\<close>: at the top of an iteration \<open>descp\<close> is
  \<open>&sensep[8 + k]\<close>, and the pointer the function returns is given by its offset.
\<close>

function desc_loop :: "u8 list \<Rightarrow> nat \<Rightarrow> int \<Rightarrow> nat \<Rightarrow> nat option option" where
  "desc_loop b add_sen_len desc_type k =
     (if k < add_sen_len then
        (case (if k + 1 < add_sen_len then map_option uint (fetch b (8 + k + 1)) else Some (-1)) of
           None \<Rightarrow> None
         | Some add_len \<Rightarrow>
             (case fetch b (8 + k) of
                None \<Rightarrow> None
              | Some d0 \<Rightarrow>
                  if uint d0 = desc_type then Some (Some (8 + k))
                  else if add_len < 0 then Some None
                  else desc_loop b add_sen_len desc_type (k + (nat add_len + 2))))
      else Some None)"
  by pat_completeness auto
termination
  by (relation "measure (\<lambda>(b, n, t, k). n - k)") auto

declare desc_loop.simps [simp del]

definition sg_scsi_sense_desc_find :: "u8 list \<Rightarrow> int \<Rightarrow> int \<Rightarrow> nat option option" where
  "sg_scsi_sense_desc_find sensep sense_len desc_type =
     (if sense_len < 8 then Some None
      else do {
        b7 \<leftarrow> fetch sensep 7;
        if uint b7 = 0 then Some None
        else do {
          b0 \<leftarrow> fetch sensep 0;
          if b0 < 0x72 \<or> b0 > 0x73 then Some None
          else desc_loop sensep
                 (nat (if uint b7 < sense_len - 8 then uint b7 else sense_len - 8))
                 desc_type 0 } })"

text \<open>The eight bytes from \<open>ucp[4]\<close> on, most significant first.\<close>

fun be_loop :: "u8 list \<Rightarrow> nat \<Rightarrow> nat \<Rightarrow> nat \<Rightarrow> u64 \<Rightarrow> u64 option" where
  "be_loop b ucp j 0 ull = Some ull"
| "be_loop b ucp j (Suc n) ull = do {
     x \<leftarrow> fetch b (ucp + 4 + j);
     be_loop b ucp (Suc j) n ((if j > 0 then push_bit 8 ull else ull) OR ucast x) }"

definition info_of_fixed :: "u8 \<Rightarrow> u8 \<Rightarrow> u8 \<Rightarrow> u8 \<Rightarrow> u32" where
  "info_of_fixed b3 b4 b5 b6 =
     push_bit 24 (ucast b3) + push_bit 16 (ucast b4) + push_bit 8 (ucast b5) + ucast b6"

definition info_of_desc :: "u8 list \<Rightarrow> nat \<Rightarrow> (int \<times> u64) option" where
  "info_of_desc sensep ucp = do {
     u1 \<leftarrow> fetch sensep (ucp + 1);
     if u1 = 0xa then do {
       ull \<leftarrow> be_loop sensep ucp 0 8 0;
       u2 \<leftarrow> fetch sensep (ucp + 2);
       Some (if u2 AND 0x80 \<noteq> 0 then 1 else 0, ull) }
     else Some (0, 0) }"

definition sg_get_sense_info_fld :: "u8 list \<Rightarrow> int \<Rightarrow> (int \<times> u64) option" where
  "sg_get_sense_info_fld sensep sb_len =
     (if sb_len < 7 then Some (0, 0)
      else do {
        b0 \<leftarrow> fetch sensep 0;
        let rc = b0 AND 0x7f;
        if rc = 0x70 \<or> rc = 0x71 then do {
          b3 \<leftarrow> fetch sensep 3; b4 \<leftarrow> fetch sensep 4;
          b5 \<leftarrow> fetch sensep 5; b6 \<leftarrow> fetch sensep 6;
          Some (if b0 AND 0x80 \<noteq> 0 then 1 else 0,
                ucast (info_of_fixed b3 b4 b5 b6)) }
        else if rc = 0x72 \<or> rc = 0x73 then do {
          f \<leftarrow> sg_scsi_sense_desc_find sensep sb_len 0;
          (case f of
             None \<Rightarrow> Some (0, 0)
           | Some ucp \<Rightarrow> info_of_desc sensep ucp) }
        else Some (0, 0) })"

section \<open>SCSI status text\<close>

definition scsi_status_str :: "u8 \<Rightarrow> string" where
  "scsi_status_str st =
     (let s = st AND 0x7e in
      if s = 0 then ''Good''
      else if s = 0x2 then ''Check Condition''
      else if s = 0x4 then ''Condition Met''
      else if s = 0x8 then ''Busy''
      else if s = 0x10 then ''Intermediate (obsolete)''
      else if s = 0x14 then ''Intermediate-Condition Met (obs)''
      else if s = 0x18 then ''Reservation Conflict''
      else if s = 0x22 then ''Command Terminated (obsolete)''
      else if s = 0x28 then ''Task set Full''
      else if s = 0x30 then ''ACA Active''
      else if s = 0x40 then ''Task Aborted''
      else ''Unknown status'')"

definition sg_get_scsi_status_str :: "u8 \<Rightarrow> nat \<Rightarrow> string" where
  "sg_get_scsi_status_str scsi_status buff_len = take buff_len (scsi_status_str scsi_status)"


section \<open>The parsers stay inside the buffer\<close>

lemma set_if_safe: "(c \<Longrightarrow> i < length b) \<Longrightarrow> \<exists>h'. set_if c b i upd h = Some h'"
  by (simp add: set_if_def)

lemma normalize_descriptor_safe:
  assumes "sb_len \<le> int (length b)"
  shows "\<exists>h'. normalize_descriptor b sb_len h = Some h'"
  using assms by (auto simp: normalize_descriptor_def set_if_def)

lemma normalize_fixed_safe:
  assumes "sb_len \<le> int (length b)"
  shows "\<exists>h'. normalize_fixed b sb_len h = Some h'"
  using assms by (auto simp: normalize_fixed_def set_if_def Let_def)

lemma normalize_sense_safe:
  assumes "0 \<le> sb_len" and "sb_len \<le> int (length b)"
  shows "\<exists>r h. sg_scsi_normalize_sense (Some b) sb_len = Some (r, h)"
proof (cases "sb_len = 0")
  case True
  then show ?thesis by (simp add: sg_scsi_normalize_sense_def)
next
  case False
  with assms have "0 < length b" by auto
  moreover define h where "h = zero_sense_hdr\<lparr>response_code := 0x7f AND b ! 0\<rparr>"
  moreover obtain h1 h2 where "normalize_descriptor b sb_len h = Some h1"
      and "normalize_fixed b sb_len h = Some h2"
    using normalize_descriptor_safe [OF assms(2)] normalize_fixed_safe [OF assms(2)] by blast
  ultimately show ?thesis using False
    by (simp add: sg_scsi_normalize_sense_def Let_def)
qed

definition sense_categories :: "int set" where
  "sense_categories = {SG_LIB_CAT_NO_SENSE, SG_LIB_CAT_RECOVERED, SG_LIB_CAT_NOT_READY,
     SG_LIB_CAT_MEDIUM_HARD, SG_LIB_CAT_UNIT_ATTENTION, SG_LIB_CAT_INVALID_OP,
     SG_LIB_CAT_ILLEGAL_REQ, SG_LIB_CAT_ABORTED_COMMAND, SG_LIB_CAT_SENSE}"

lemma category_of_key_range: "category_of_key h \<in> sense_categories"
  by (simp add: category_of_key_def sense_categories_def)

lemma err_category_sense_safe:
  assumes "0 \<le> sb_len" and "sb_len \<le> int (length b)"
  shows "\<exists>c \<in> sense_categories. sg_err_category_sense (Some b) sb_len = Some c"
proof -
  obtain r h where "sg_scsi_normalize_sense (Some b) sb_len = Some (r, h)"
    using normalize_sense_safe [OF assms] by blast
  then show ?thesis
    using category_of_key_range [of h]
    by (simp add: sg_err_category_sense_def) (simp add: sense_categories_def)
qed

section \<open>What complete sense data is classified as\<close>

text \<open>
  The header that SPC-4 gives to complete sense data: key, additional sense code and
  qualifier at their places in the descriptor and in the fixed format.
\<close>

definition sense_spec :: "u8 list \<Rightarrow> sg_scsi_sense_hdr" where
  "sense_spec b =
     (let rc = 0x7f AND b ! 0 in
      if rc \<ge> 0x72
      then zero_sense_hdr\<lparr>response_code := rc, sense_key := 0xf AND b ! 1, asc := b ! 2,
             ascq := b ! 3, additional_length := b ! 7\<rparr>
      else zero_sense_hdr\<lparr>response_code := rc, sense_key := 0xf AND b ! 2, asc := b ! 12,
             ascq := b ! 13\<rparr>)"

lemma normalize_sense_complete:
  assumes "14 \<le> sb_len" and "sb_len \<le> int (length b)" and "6 \<le> uint (b ! 7)"
    and "0x70 = 0x70 AND b ! 0"
  shows "sg_scsi_normalize_sense (Some b) sb_len = Some (1, sense_spec b)"
proof -
  have "13 < length b" and "b \<noteq> []" using assms(1,2) by auto
  with assms show ?thesis
    by (auto simp: sg_scsi_normalize_sense_def normalize_descriptor_def normalize_fixed_def
        set_if_def sense_spec_def Let_def)
qed

lemma err_category_complete:
  assumes "14 \<le> sb_len" and "sb_len \<le> int (length b)" and "6 \<le> uint (b ! 7)"
    and "0x70 = 0x70 AND b ! 0"
  shows "sg_err_category_sense (Some b) sb_len = Some (category_of_key (sense_spec b))"
  using normalize_sense_complete [OF assms] assms(1)
  by (simp add: sg_err_category_sense_def)

section \<open>The descriptor search\<close>

lemma desc_loop_safe:
  assumes "8 + n \<le> length b"
  shows "\<exists>r. desc_loop b n t k = Some r \<and>
           (\<forall>u. r = Some u \<longrightarrow> 8 \<le> u \<and> u < 8 + n \<and> uint (b ! u) = t)"
  using assms
proof (induction b n t k rule: desc_loop.induct)
  case (1 b n t k)
  show ?case
  proof (cases "k < n \<and> uint (b ! (8 + k)) \<noteq> t \<and> k + 1 < n")
    case True
    then have "\<exists>r. desc_loop b n t (k + (nat (uint (b ! (8 + k + 1))) + 2)) = Some r \<and>
        (\<forall>u. r = Some u \<longrightarrow> 8 \<le> u \<and> u < 8 + n \<and> uint (b ! u) = t)"
      using "1.IH" [of "uint (b ! (8 + k + 1))" "b ! (8 + k)"] "1.prems" by simp
    with True "1.prems" show ?thesis by (subst desc_loop.simps) simp
  next
    case False
    with "1.prems" show ?thesis by (subst desc_loop.simps) auto
  qed
qed

lemma sense_desc_find_safe:
  assumes "sense_len \<le> int (length b)"
  shows "\<exists>r. sg_scsi_sense_desc_find b sense_len t = Some r \<and>
           (\<forall>u. r = Some u \<longrightarrow> 8 \<le> u \<and> int u < sense_len \<and> uint (b ! u) = t)"
proof (cases "sense_len < 8 \<or> b ! 7 = 0 \<or> b ! 0 < 0x72 \<or> b ! 0 > 0x73")
  case True
  have "8 \<le> sense_len \<Longrightarrow> 7 < length b" and "8 \<le> sense_len \<Longrightarrow> 0 < length b"
    using assms by auto
  with True show ?thesis by (auto simp: sg_scsi_sense_desc_find_def)
next
  case False
  define n where "n = nat (if uint (b ! 7) < sense_len - 8 then uint (b ! 7) else sense_len - 8)"
  have n2: "int n \<le> sense_len - 8" using False by (simp add: n_def)
  with assms have n1: "8 + n \<le> length b" by linarith
  have len: "7 < length b" "b \<noteq> []" using False assms by auto
  have "uint (b ! 7) \<noteq> 0" using False by (simp add: uint_0_iff)
  then have "sg_scsi_sense_desc_find b sense_len t = desc_loop b n t 0"
    using False assms n_def len by (simp add: sg_scsi_sense_desc_find_def)
  with desc_loop_safe [OF n1, of t 0] n2 show ?thesis by fastforce
qed

lemma be_loop_safe: "be_loop b ucp j n ull \<noteq> None \<longleftrightarrow> n = 0 \<or> ucp + 4 + j + n \<le> length b"
proof (induction n arbitrary: j ull)
  case 0
  then show ?case by simp
next
  case (Suc n)
  show ?case
  proof (cases "ucp + 4 + j < length b")
    case True
    with Suc [of "Suc j"] show ?thesis by auto
  next
    case False
    then show ?thesis by simp
  qed
qed

section \<open>The information field\<close>

text \<open>The number that a list of bytes is, most significant byte first.\<close>

definition be_val :: "u8 list \<Rightarrow> nat" where
  "be_val bs = foldl (\<lambda>a x. a * 256 + unat x) 0 bs"

lemma push_or_byte: "push_bit 8 u OR ucast (x :: u8) = u * 256 + (ucast x :: u64)"
proof -
  have "push_bit 8 u AND (ucast x :: u64) = 0"
    by (rule bit_word_eqI) (auto simp: bit_simps dest: bit_imp_le_length)
  then have "push_bit 8 u + (ucast x :: u64) = push_bit 8 u OR ucast x"
    by (rule disjunctive_add_eq_or)
  then show ?thesis by (simp add: push_bit_eq_mult)
qed

lemma be_loop_value:
  assumes "j = 0 \<longrightarrow> ull = 0" and "ucp + 4 + j + n \<le> length b"
  shows "be_loop b ucp j n ull =
           Some (foldl (\<lambda>a x. a * 256 + ucast x) ull (take n (drop (ucp + 4 + j) b)))"
  using assms
proof (induction n arbitrary: j ull)
  case 0
  then show ?case by simp
next
  case (Suc n)
  let ?x = "b ! (ucp + 4 + j)"
  have "fetch b (ucp + 4 + j) = Some ?x" using Suc.prems(2) by simp
  moreover have "(if j > 0 then push_bit 8 ull else ull) OR ucast ?x = ull * 256 + ucast ?x"
    using Suc.prems(1) by (simp add: push_or_byte)
  ultimately have "be_loop b ucp j (Suc n) ull = be_loop b ucp (Suc j) n (ull * 256 + ucast ?x)"
    by (simp only: be_loop.simps Option.bind.simps(2))
  also have "\<dots> = Some (foldl (\<lambda>a x. a * 256 + ucast x) (ull * 256 + ucast ?x)
                        (take n (drop (ucp + 4 + Suc j) b)))"
    using Suc.prems(2) by (intro Suc.IH) simp_all
  also have "foldl (\<lambda>a x. a * 256 + ucast x) (ull * 256 + ucast ?x)
                 (take n (drop (ucp + 4 + Suc j) b))
           = foldl (\<lambda>a x. a * 256 + ucast x) ull (take (Suc n) (drop (ucp + 4 + j) b))"
    using Suc.prems(2) by (simp add: Cons_nth_drop_Suc [symmetric])
  finally show ?case .
qed

lemma foldl_step_of_nat:
  "of_nat m * 256 + (ucast (x :: u8) :: u64) = of_nat (m * 256 + unat x)"
  by simp

lemma be_fold_of_nat:
  "foldl (\<lambda>a x. a * 256 + ucast x) (of_nat m :: u64) bs
     = of_nat (foldl (\<lambda>a x. a * 256 + unat x) m (bs :: u8 list))"
proof (induction bs arbitrary: m)
  case Nil
  then show ?case by simp
next
  case (Cons x bs)
  then show ?case by (simp only: foldl.simps foldl_step_of_nat)
qed

lemma be_loop_be_val:
  assumes "ucp + 12 \<le> length b"
  shows "be_loop b ucp 0 8 0 = Some (of_nat (be_val (take 8 (drop (ucp + 4) b))))"
proof -
  let ?bs = "take 8 (drop (ucp + 4) b)"
  have "be_loop b ucp 0 8 0 = Some (foldl (\<lambda>a x. a * 256 + ucast x) (of_nat 0) ?bs)"
    using be_loop_value [of 0 0 ucp 8 b] assms by (simp del: be_loop.simps)
  then show ?thesis unfolding be_fold_of_nat be_val_def .
qed

text \<open>The two guards that select the descriptor format and the descriptor found in it.\<close>

definition info_desc_at :: "u8 list \<Rightarrow> int \<Rightarrow> nat \<Rightarrow> bool" where
  "info_desc_at b sb_len ucp \<longleftrightarrow>
     (b ! 0 AND 0x7f = 0x72 \<or> b ! 0 AND 0x7f = 0x73) \<and>
     sg_scsi_sense_desc_find b sb_len 0 = Some (Some ucp)"

lemma ucast_info_of_fixed:
  "(ucast (info_of_fixed b3 b4 b5 b6) :: u64) = of_nat (be_val [b3, b4, b5, b6])"
proof -
  have "be_val [b3, b4, b5, b6] < 2 ^ 32"
    using unat_u8_less [of b3] unat_u8_less [of b4] unat_u8_less [of b5] unat_u8_less [of b6]
    by (simp add: be_val_def)
  moreover have "info_of_fixed b3 b4 b5 b6 = of_nat (be_val [b3, b4, b5, b6])"
    by (simp add: info_of_fixed_def be_val_def push_bit_eq_mult algebra_simps)
  ultimately show ?thesis
    by (simp add: unsigned_of_nat take_bit_nat_eq_self)
qed

lemma sense_info_fixed:
  assumes "7 \<le> sb_len" and "sb_len \<le> int (length b)"
    and "b ! 0 AND 0x7f = 0x70 \<or> b ! 0 AND 0x7f = 0x71"
  shows "sg_get_sense_info_fld b sb_len =
           Some (if b ! 0 AND 0x80 \<noteq> 0 then 1 else 0,
                 of_nat (be_val (take 4 (drop 3 b))))"
proof -
  have len: "\<not> sb_len < 7" using assms(1) by simp
  have fetches: "fetch b 0 = Some (b ! 0)" "fetch b 3 = Some (b ! 3)" "fetch b 4 = Some (b ! 4)"
      "fetch b 5 = Some (b ! 5)" "fetch b 6 = Some (b ! 6)"
    using assms(1,2) by (auto simp: fetch_def)
  have "take 4 (drop 3 b) = [b ! 3, b ! 4, b ! 5, b ! 6]"
    using assms(1,2) by (intro nth_equalityI) (auto simp: less_Suc_eq numeral_eq_Suc)
  with assms(3) show ?thesis
    by (simp only: sg_get_sense_info_fld_def len fetches if_True if_False Let_def
        Option.bind.simps(2) ucast_info_of_fixed)
qed

lemma be_loop8_None:
  assumes "\<not> ucp + 12 \<le> length b"
  shows "be_loop b ucp 0 8 0 = None"
proof -
  have "\<not> (8 = (0::nat) \<or> ucp + 4 + 0 + 8 \<le> length b)" using assms by linarith
  then show ?thesis using be_loop_safe [of b ucp 0 8 0] by blast
qed

lemma info_of_desc_value:
  assumes "ucp + 12 \<le> length b" and "b ! (ucp + 1) = 0xa"
  shows "info_of_desc b ucp = Some (if b ! (ucp + 2) AND 0x80 \<noteq> 0 then 1 else 0,
           of_nat (be_val (take 8 (drop (ucp + 4) b))))"
proof -
  have "fetch b (ucp + 1) = Some 0xa" and "fetch b (ucp + 2) = Some (b ! (ucp + 2))"
    using assms by (simp_all add: fetch_def)
  then show ?thesis
    by (simp only: info_of_desc_def be_loop_be_val [OF assms(1)] Option.bind.simps(2) if_True refl)
qed

lemma info_of_desc_None:
  "info_of_desc b ucp = None \<longleftrightarrow>
     length b \<le> ucp + 1 \<or> b ! (ucp + 1) = 0xa \<and> length b < ucp + 12"
proof (cases "ucp + 1 < length b")
  case True
  then have u1: "fetch b (ucp + 1) = Some (b ! (ucp + 1))" by (rule fetch_in)
  show ?thesis
  proof (cases "ucp + 12 \<le> length b")
    case True
    show ?thesis
    proof (cases "b ! (ucp + 1) = 0xa")
      case True
      with \<open>ucp + 12 \<le> length b\<close> show ?thesis using info_of_desc_value by simp
    next
      case False
      then have "info_of_desc b ucp = Some (0, 0)"
        by (simp only: info_of_desc_def u1 Option.bind.simps(2) if_False)
      with False \<open>ucp + 1 < length b\<close> show ?thesis by simp
    qed
  next
    case False
    then have "be_loop b ucp 0 8 0 = None" by (rule be_loop8_None)
    then have "info_of_desc b ucp = (if b ! (ucp + 1) = 0xa then None else Some (0, 0))"
      by (simp only: info_of_desc_def u1 Option.bind.simps(2) Option.bind.simps(1))
    with False \<open>ucp + 1 < length b\<close> show ?thesis by simp
  qed
next
  case False
  then show ?thesis by (simp add: info_of_desc_def)
qed

lemma sense_info_desc_eq:
  assumes "7 \<le> sb_len" and "sb_len \<le> int (length b)" and "info_desc_at b sb_len ucp"
  shows "sg_get_sense_info_fld b sb_len = info_of_desc b ucp"
proof -
  have b0: "fetch b 0 = Some (b ! 0)" and len: "\<not> sb_len < 7"
    using assms(1,2) by (auto simp: fetch_def)
  have find: "sg_scsi_sense_desc_find b sb_len 0 = Some (Some ucp)"
    and rc: "b ! 0 AND 0x7f = 0x72 \<or> b ! 0 AND 0x7f = 0x73"
    using assms(3) by (simp_all only: info_desc_at_def)
  from rc show ?thesis
    by (rule disjE) (simp_all add: sg_get_sense_info_fld_def Let_def b0 len find)
qed

lemma sense_info_descriptor:
  assumes "7 \<le> sb_len" and "sb_len \<le> int (length b)" and "info_desc_at b sb_len ucp"
    and "b ! (ucp + 1) = 0xa" and "ucp + 12 \<le> length b"
  shows "sg_get_sense_info_fld b sb_len =
           Some (if b ! (ucp + 2) AND 0x80 \<noteq> 0 then 1 else 0,
                 of_nat (be_val (take 8 (drop (ucp + 4) b))))"
  unfolding sense_info_desc_eq [OF assms(1-3)] by (rule info_of_desc_value [OF assms(5,4)])

lemma sense_info_out_of_bounds:
  assumes "7 \<le> sb_len" and "sb_len \<le> int (length b)"
  shows "sg_get_sense_info_fld b sb_len = None \<longleftrightarrow>
           (\<exists>ucp. info_desc_at b sb_len ucp \<and>
                  (length b \<le> ucp + 1 \<or> b ! (ucp + 1) = 0xa \<and> length b < ucp + 12))"
proof (cases "\<exists>ucp. info_desc_at b sb_len ucp")
  case True
  then obtain ucp where ucp: "info_desc_at b sb_len ucp" by blast
  have "info_desc_at b sb_len u \<longleftrightarrow> u = ucp" for u
    using ucp by (auto simp: info_desc_at_def)
  then show ?thesis
    unfolding sense_info_desc_eq [OF assms ucp] info_of_desc_None by simp
next
  case False
  have len: "b \<noteq> []" "\<not> sb_len < 7" "3 < length b" "4 < length b" "5 < length b" "6 < length b"
    using assms by auto
  obtain r where r: "sg_scsi_sense_desc_find b sb_len 0 = Some r"
    using sense_desc_find_safe [OF assms(2), of 0] by blast
  have "sg_get_sense_info_fld b sb_len \<noteq> None"
  proof (cases "b ! 0 AND 0x7f = 0x72 \<or> b ! 0 AND 0x7f = 0x73")
    case True
    with False r have "r = None" by (cases r) (simp_all add: info_desc_at_def)
    with True r len show ?thesis by (simp add: sg_get_sense_info_fld_def Let_def)
  next
    case False
    with len show ?thesis by (simp add: sg_get_sense_info_fld_def Let_def)
  qed
  with False show ?thesis by blast
qed

section \<open>Properties\<close>



text \<open>
  C17: For descriptor-format sense data that holds a whole information descriptor,
  \<open>sg_get_sense_info_fld\<close> returns its valid bit and the number its eight bytes spell, most
  significant first.
\<close>

theorem info_field_of_descriptor:
  assumes "7 \<le> sb_len" and "sb_len \<le> int (length b)" and "info_desc_at b sb_len ucp"
    and "b ! (ucp + 1) = 0xa" and "ucp + 12 \<le> length b"
  shows "sg_get_sense_info_fld b sb_len =
           Some (if b ! (ucp + 2) AND 0x80 \<noteq> 0 then 1 else 0,
                 of_nat (be_val (take 8 (drop (ucp + 4) b))))"
  by (rule sense_info_descriptor [OF assms])

theorem info_field_of_descriptor_witness:
  "sg_get_sense_info_fld [0x72, 3, 0x11, 0, 0, 0, 0, 12, 0, 10, 0x80, 0, 0, 0, 0, 0, 0, 0, 1, 2] 20 =
     Some (1, 258)"
proof -
  let ?b = "[0x72, 3, 0x11, 0, 0, 0, 0, 12, 0, 10, 0x80, 0, 0, 0, 0, 0, 0, 0, 1, 2] :: u8 list"
  have "sg_scsi_sense_desc_find ?b 20 0 = Some (Some 8)" by code_simp
  then have "info_desc_at ?b 20 8" by (simp add: info_desc_at_def)
  from info_field_of_descriptor [OF _ _ this] show ?thesis by (simp add: be_val_def)
qed

end
