(* ===== verification/Sg_Io.thy ===== *)
theory Sg_Io
  imports Scsi_Sense
begin

text \<open>
  The SG_IO path that the scrubber enters the block layer by: the command filter,
  \<open>blk_kern_fill_sghdr_rq\<close>, \<open>sg_kern_io\<close>, \<open>sg_kern_complete_rq\<close>, \<open>blk_complete_sghdr_rq\<close> and
  \<open>scsi_kern_ioctl\<close> of \<^verbatim>\<open>block/scsi_ioctl.c\<close>, with the part of \<open>scsi_io_completion\<close>
  (\<^verbatim>\<open>drivers/scsi/scsi_lib.c\<close>) that fills a packet command's result in, and the release of the
  bio (\<^verbatim>\<open>block/blk-map.c\<close>, \<^verbatim>\<open>fs/bio.c\<close>).

  The device is a parameter: a function from the request to the result of the command.
  What the surrounding kernel decides (is the queue dead, may the caller send raw
  commands, does a copy fault, how long did the command take) is the record \<open>blk_env\<close>.
  A result \<open>None\<close> is a kernel fault: a NULL pointer or a read outside an array.
\<close>

section \<open>Data\<close>

record sg_io_hdr =
  h_interface_id :: char
  h_dxfer_direction :: int
  h_cmd_len :: u8
  h_mx_sb_len :: u8
  h_iovec_count :: u16
  h_dxfer_len :: u32
  h_cmdp :: "u8 list option"
  h_sbp :: "u8 list option"
  h_timeout :: u32
  h_status :: u8
  h_masked_status :: u8
  h_msg_status :: u8
  h_sb_len_wr :: u8
  h_host_status :: u16
  h_driver_status :: u16
  h_resid :: u32
  h_duration :: u32
  h_info :: u32

abbreviation (input) SG_DXFER_NONE :: int where "SG_DXFER_NONE \<equiv> -1"
abbreviation (input) SG_DXFER_TO_DEV :: int where "SG_DXFER_TO_DEV \<equiv> -2"
abbreviation (input) SG_DXFER_FROM_DEV :: int where "SG_DXFER_FROM_DEV \<equiv> -3"
abbreviation (input) SG_DXFER_TO_FROM_DEV :: int where "SG_DXFER_TO_FROM_DEV \<equiv> -4"
abbreviation (input) BLK_MAX_CDB :: nat where "BLK_MAX_CDB \<equiv> 16"
abbreviation (input) SCSI_SENSE_BUFFERSIZE :: nat where "SCSI_SENSE_BUFFERSIZE \<equiv> 96"

record blk_bio =
  bio_sector :: u64
  bio_size :: u32
  bio_null_mapped :: bool
  bio_cnt :: int

record blk_request =
  rq_writing :: bool
  rq_cmd :: "u8 list"
  rq_cmd_len :: u8
  rq_block_pc :: bool
  rq_timeout :: u32
  rq_bio :: "blk_bio option"
  rq_sense :: "u8 list"
  rq_sense_len :: nat
  rq_retries :: int
  rq_errors :: u32
  rq_resid_len :: u32
  rq_ref_count :: int
  rq_nomerge :: bool
  rq_sector :: u64
  rq_data_len :: u32

text \<open>What the adapter hands back: the command's result word and its sense buffer.\<close>

record scsi_cmnd =
  sc_result :: u32
  sc_sense :: "u8 list"
  sc_resid :: u32

datatype completion = Completed scsi_cmnd | Interrupted

record blk_env =
  be_queue_dead :: bool
  be_get_request_fails :: bool
  be_rawio :: bool
  be_max_hw_sectors :: u32
  be_sg_timeout :: u32
  be_hz :: u32
  be_msecs_to_jiffies :: "u32 \<Rightarrow> u32"
  be_elapsed_msecs :: u32
  be_copy_to_user_fails :: bool
  be_map_user :: "int \<times> blk_bio option"
  be_copy_iov :: int
  be_bio_alloc_fails :: bool

section \<open>The command filter\<close>

text \<open>The bits \<open>blk_set_cmd_filter_defaults\<close> sets, as opcodes in the order of the source.\<close>

definition filter_read_ok :: "u8 list" where
  "filter_read_ok =
     [0x00, 0x03, 0x08, 0x28, 0xa8, 0x88, 0x3c, 0x37, 0x25, 0x3e, 0x12, 0x1a, 0x5a, 0x4d, 0x1b,
      0x2f, 0x8f, 0xa0, 0x9e, 0x1c, 0xa3, 0x5c,
      0xbc, 0x45, 0x47, 0x48, 0x4b,
      0xbe, 0xb9, 0x51, 0x25, 0xad, 0x44, 0x52, 0x42, 0x43, 0xa4, 0xba, 0x46, 0x23, 0x4a, 0xac,
      0x2b, 0x4e]"

definition filter_write_ok :: "u8 list" where
  "filter_write_ok =
     [0x0a, 0x2a, 0x2e, 0xaa, 0xae, 0x8a, 0x3f, 0xea, 0x19, 0x55, 0x15, 0x4c, 0xa1, 0x5b, 0x35,
      0x04, 0x58, 0x53, 0xbf, 0xa2, 0xa3, 0x54, 0x5d, 0xbb, 0x1e, 0xa6, 0xb6, 0xa7]"

definition blk_verify_command :: "bool \<Rightarrow> u8 \<Rightarrow> bool \<Rightarrow> int" where
  "blk_verify_command rawio opcode has_write_perm =
     (if rawio then 0
      else if opcode \<in> set filter_read_ok then 0
      else if opcode \<in> set filter_write_ok \<and> has_write_perm then 0
      else - EPERM)"

section \<open>Filling the request\<close>

definition new_request :: "bool \<Rightarrow> blk_request" where
  "new_request writing = \<lparr>rq_writing = writing, rq_cmd = replicate BLK_MAX_CDB 0, rq_cmd_len = of_nat BLK_MAX_CDB,
     rq_block_pc = False, rq_timeout = 0, rq_bio = None, rq_sense = [], rq_sense_len = 0,
     rq_retries = 0, rq_errors = 0, rq_resid_len = 0, rq_ref_count = 1, rq_nomerge = False,
     rq_sector = - 1, rq_data_len = 0\<rparr>"

definition request_timeout :: "blk_env \<Rightarrow> u32 \<Rightarrow> u32" where
  "request_timeout env ms =
     (let t0 = be_msecs_to_jiffies env ms;
          t1 = (if t0 = 0 then be_sg_timeout env else t0);
          t2 = (if t1 = 0 then 60 * be_hz env else t1)
      in if t2 < 7 * be_hz env then 7 * be_hz env else t2)"

definition blk_kern_fill_sghdr_rq ::
    "blk_env \<Rightarrow> blk_request \<Rightarrow> sg_io_hdr \<Rightarrow> bool \<Rightarrow> (int \<times> blk_request) option" where
  "blk_kern_fill_sghdr_rq env rq hdr fmode_write = do {
     cmdp \<leftarrow> (case h_cmdp hdr of Some c \<Rightarrow> Some c | None \<Rightarrow> if h_cmd_len hdr = 0 then Some [] else None);
     if length cmdp < unat (h_cmd_len hdr) then None else do {
     let rq1 = rq\<lparr>rq_cmd := take (unat (h_cmd_len hdr)) cmdp
                            @ drop (unat (h_cmd_len hdr)) (rq_cmd rq)\<rparr>;
     opcode \<leftarrow> fetch (rq_cmd rq1) 0;
     if blk_verify_command (be_rawio env) opcode fmode_write \<noteq> 0 then Some (- EPERM, rq1)
     else Some (0, rq1\<lparr>rq_cmd_len := h_cmd_len hdr, rq_block_pc := True,
                       rq_timeout := request_timeout env (h_timeout hdr)\<rparr>) } }"

section \<open>Completion\<close>

definition blk_put_request :: "blk_request \<Rightarrow> blk_request" where
  "blk_put_request rq = rq\<lparr>rq_ref_count := rq_ref_count rq - 1\<rparr>"

definition sg_kern_complete_rq :: "blk_request \<Rightarrow> blk_request" where
  "sg_kern_complete_rq rq = blk_put_request rq"

text \<open>The adapter's sense buffer is an array of 96 bytes.\<close>

definition sense_buffer :: "scsi_cmnd \<Rightarrow> u8 list" where
  "sense_buffer cmd = take SCSI_SENSE_BUFFERSIZE (sc_sense cmd @ replicate SCSI_SENSE_BUFFERSIZE 0)"

text \<open>
  \<open>scsi_normalize_sense\<close> of \<^verbatim>\<open>drivers/scsi/scsi_error.c\<close>, the kernel's own parser, which
  \<open>scsi_io_completion\<close> asks whether the sense data is valid.
\<close>

definition scsi_normalize_sense :: "u8 list \<Rightarrow> int \<Rightarrow> (int \<times> sg_scsi_sense_hdr) option" where
  "scsi_normalize_sense buf sb_len =
     (if sb_len = 0 then Some (0, zero_sense_hdr)
      else do {
        b0 \<leftarrow> fetch buf 0;
        let h = zero_sense_hdr\<lparr>response_code := b0 AND 0x7f\<rparr>;
        if response_code h AND 0x70 \<noteq> 0x70 then Some (0, h)
        else if response_code h \<ge> 0x72 then do {
          h1 \<leftarrow> set_if (sb_len > 1) buf 1 (\<lambda>x h. h\<lparr>sense_key := x AND 0xf\<rparr>) h;
          h2 \<leftarrow> set_if (sb_len > 2) buf 2 (\<lambda>x h. h\<lparr>asc := x\<rparr>) h1;
          h3 \<leftarrow> set_if (sb_len > 3) buf 3 (\<lambda>x h. h\<lparr>ascq := x\<rparr>) h2;
          h4 \<leftarrow> set_if (sb_len > 7) buf 7 (\<lambda>x h. h\<lparr>additional_length := x\<rparr>) h3;
          Some (1, h4) }
        else do {
          h1 \<leftarrow> set_if (sb_len > 2) buf 2 (\<lambda>x h. h\<lparr>sense_key := x AND 0xf\<rparr>) h;
          if sb_len > 7 then do {
            b7 \<leftarrow> fetch buf 7;
            let len = (if sb_len < uint b7 + 8 then sb_len else uint b7 + 8);
            h2 \<leftarrow> set_if (len > 12) buf 12 (\<lambda>x h. h\<lparr>asc := x\<rparr>) h1;
            h3 \<leftarrow> set_if (len > 13) buf 13 (\<lambda>x h. h\<lparr>ascq := x\<rparr>) h2;
            Some (1, h3) }
          else Some (1, h1) } })"

definition scsi_io_completion :: "scsi_cmnd \<Rightarrow> blk_request \<Rightarrow> blk_request" where
  "scsi_io_completion cmd rq =
     (let buf = sense_buffer cmd;
          sense_valid = (sc_result cmd \<noteq> 0 \<and>
            (case scsi_normalize_sense buf (int SCSI_SENSE_BUFFERSIZE) of
               None \<Rightarrow> False | Some (r, _) \<Rightarrow> r \<noteq> 0));
          rq1 = rq\<lparr>rq_errors := sc_result cmd\<rparr>;
          rq2 = (if sc_result cmd \<noteq> 0 \<and> sense_valid
                 then (let len = min (8 + unat (buf ! 7)) SCSI_SENSE_BUFFERSIZE
                       in rq1\<lparr>rq_sense := take len buf @ drop len (rq_sense rq1),
                              rq_sense_len := len\<rparr>)
                 else rq1)
      in rq2\<lparr>rq_resid_len := sc_resid cmd\<rparr>)"

text \<open>
  \<open>blk_execute_scsi_nowait\<close> followed by \<open>wait_for_completion_interruptible\<close>: either the
  command completes, and its completion handler drops a reference, or the wait is
  interrupted and the request is as it was.
\<close>

definition execute_and_wait :: "(blk_request \<Rightarrow> completion) \<Rightarrow> blk_request \<Rightarrow> blk_request" where
  "execute_and_wait dev rq =
     (case dev rq of
        Completed cmd \<Rightarrow> sg_kern_complete_rq (scsi_io_completion cmd rq)
      | Interrupted \<Rightarrow> rq)"

section \<open>Releasing the bio\<close>

definition bio_put :: "blk_bio \<Rightarrow> blk_bio" where
  "bio_put bio = bio\<lparr>bio_cnt := bio_cnt bio - 1\<rparr>"

definition bio_uncopy_user :: "blk_env \<Rightarrow> blk_bio \<Rightarrow> int \<times> blk_bio" where
  "bio_uncopy_user env bio =
     ((if bio_null_mapped bio then 0 else be_copy_iov env), bio_put bio)"

definition blk_rq_unmap_user :: "blk_env \<Rightarrow> blk_bio option \<Rightarrow> int \<times> blk_bio option" where
  "blk_rq_unmap_user env bio =
     (case bio of
        None \<Rightarrow> (0, None)
      | Some b \<Rightarrow> let (ret2, b1) = bio_uncopy_user env b in (ret2, Some (bio_put b1)))"

section \<open>Handing the result back\<close>

definition status_byte :: "u32 \<Rightarrow> u32" where "status_byte r = drop_bit 1 r AND 0x7f"
definition msg_byte :: "u32 \<Rightarrow> u32" where "msg_byte r = drop_bit 8 r AND 0xff"
definition host_byte :: "u32 \<Rightarrow> u32" where "host_byte r = drop_bit 16 r AND 0xff"
definition driver_byte :: "u32 \<Rightarrow> u32" where "driver_byte r = drop_bit 24 r AND 0xff"

record sg_result =
  sr_ret :: int
  sr_hdr :: sg_io_hdr
  sr_rq :: "blk_request option"
  sr_bio :: "blk_bio option"

definition fill_status :: "blk_request \<Rightarrow> sg_io_hdr \<Rightarrow> sg_io_hdr" where
  "fill_status rq hdr =
     hdr\<lparr>h_status := ucast (rq_errors rq AND 0xff),
         h_masked_status := ucast (status_byte (rq_errors rq)),
         h_msg_status := ucast (msg_byte (rq_errors rq)),
         h_host_status := ucast (host_byte (rq_errors rq)),
         h_driver_status := ucast (driver_byte (rq_errors rq)),
         h_info := (if status_byte (rq_errors rq) \<noteq> 0 \<or> host_byte (rq_errors rq) \<noteq> 0
                       \<or> driver_byte (rq_errors rq) \<noteq> 0 then 1 else 0),
         h_resid := rq_resid_len rq,
         h_sb_len_wr := 0\<rparr>"

definition copy_sense :: "blk_env \<Rightarrow> blk_request \<Rightarrow> sg_io_hdr \<Rightarrow> int \<times> sg_io_hdr" where
  "copy_sense env rq hdr =
     (case h_sbp hdr of
        None \<Rightarrow> (0, hdr)
      | Some buf \<Rightarrow>
          if rq_sense_len rq = 0 then (0, hdr)
          else let len = min (unat (h_mx_sb_len hdr)) (rq_sense_len rq) in
            if be_copy_to_user_fails env then (- EFAULT, hdr)
            else (0, hdr\<lparr>h_sbp := Some (take len (rq_sense rq) @ drop len buf),
                         h_sb_len_wr := of_nat len\<rparr>))"

definition blk_complete_sghdr_rq ::
    "blk_env \<Rightarrow> blk_request \<Rightarrow> sg_io_hdr \<Rightarrow> blk_bio option \<Rightarrow> sg_result" where
  "blk_complete_sghdr_rq env rq hdr bio =
     (let (ret, hdr2) = copy_sense env rq (fill_status rq hdr);
          (r, bio') = blk_rq_unmap_user env bio
      in \<lparr>sr_ret = (if ret = 0 then r else ret), sr_hdr = hdr2,
          sr_rq = Some (blk_put_request rq), sr_bio = bio'\<rparr>)"

section \<open>The request of a scrub command\<close>

text \<open>
  \<open>sg_kern_io\<close> reads the sector and the length of the request back from bytes 2 to 5 and
  7 to 8 of the command block, in 32-bit arithmetic.
\<close>

definition cdb_sector :: "u8 \<Rightarrow> u8 \<Rightarrow> u8 \<Rightarrow> u8 \<Rightarrow> u64" where
  "cdb_sector c2 c3 c4 c5 =
     ucast ((push_bit 24 (ucast c2) AND 0xff000000) OR
            (push_bit 16 (ucast c3) AND 0x00ff0000) OR
            (push_bit 8 (ucast c4) AND 0x0000ff00) OR
            (ucast c5 AND 0x000000ff) :: u32)"

definition cdb_bytes :: "u8 \<Rightarrow> u8 \<Rightarrow> u32" where
  "cdb_bytes c7 c8 =
     push_bit 9 ((push_bit 8 (ucast c7) AND 0x0000ff00) OR (ucast c8 AND 0x000000ff))"

definition set_position :: "u8 list \<Rightarrow> blk_request \<Rightarrow> blk_bio \<Rightarrow> (blk_request \<times> blk_bio) option" where
  "set_position cdb rq bio = do {
     c2 \<leftarrow> fetch cdb 2; c3 \<leftarrow> fetch cdb 3; c4 \<leftarrow> fetch cdb 4; c5 \<leftarrow> fetch cdb 5;
     c7 \<leftarrow> fetch cdb 7; c8 \<leftarrow> fetch cdb 8;
     Some (rq\<lparr>rq_sector := cdb_sector c2 c3 c4 c5, rq_data_len := cdb_bytes c7 c8\<rparr>,
           bio\<lparr>bio_sector := cdb_sector c2 c3 c4 c5, bio_size := cdb_bytes c7 c8\<rparr>) }"

text \<open>\<open>bio_alloc(__GFP_WAIT, 0)\<close>, the \<open>BIO_NULL_MAPPED\<close> flag and \<open>bio_get\<close>.\<close>

definition scrub_bio :: "blk_env \<Rightarrow> blk_bio option \<Rightarrow> blk_bio option" where
  "scrub_bio env bio =
     (case bio of
        Some b \<Rightarrow> Some b
      | None \<Rightarrow>
          if be_bio_alloc_fails env then None
          else Some \<lparr>bio_sector = 0, bio_size = 0, bio_null_mapped = True, bio_cnt = 2\<rparr>)"

definition map_data :: "blk_env \<Rightarrow> sg_io_hdr \<Rightarrow> blk_request \<Rightarrow> int \<times> blk_request" where
  "map_data env hdr rq =
     (if h_iovec_count hdr \<noteq> 0 \<or> h_dxfer_len hdr \<noteq> 0
      then (fst (be_map_user env),
            if fst (be_map_user env) = 0 then rq\<lparr>rq_bio := snd (be_map_user env)\<rparr> else rq)
      else (0, rq))"

definition prepare_request :: "blk_request \<Rightarrow> blk_request" where
  "prepare_request rq =
     rq\<lparr>rq_bio := None, rq_sense := replicate SCSI_SENSE_BUFFERSIZE 0, rq_sense_len := 0,
        rq_retries := 0, rq_ref_count := rq_ref_count rq + 1, rq_nomerge := True\<rparr>"

definition sg_early :: "int \<Rightarrow> sg_io_hdr \<Rightarrow> blk_request option \<Rightarrow> sg_result option" where
  "sg_early ret hdr rq = Some \<lparr>sr_ret = ret, sr_hdr = hdr, sr_rq = rq, sr_bio = None\<rparr>"

text \<open>The checks before a request is allocated: an error number, or 0.\<close>

definition sg_header_check :: "blk_env \<Rightarrow> sg_io_hdr \<Rightarrow> int" where
  "sg_header_check env hdr =
     (if h_interface_id hdr \<noteq> CHR ''S'' then - EINVAL
      else if unat (h_cmd_len hdr) > BLK_MAX_CDB then - EINVAL
      else if h_dxfer_len hdr > push_bit 9 (be_max_hw_sectors env) then - EIO
      else if h_dxfer_len hdr \<noteq> 0 \<and>
              h_dxfer_direction hdr \<notin> {SG_DXFER_TO_DEV, SG_DXFER_TO_FROM_DEV, SG_DXFER_FROM_DEV}
        then - EINVAL
      else 0)"

definition sg_kern_issue ::
    "blk_env \<Rightarrow> (blk_request \<Rightarrow> completion) \<Rightarrow> sg_io_hdr \<Rightarrow> blk_request \<Rightarrow> sg_result option" where
  "sg_kern_issue env dev hdr rq = do {
     bio \<leftarrow> scrub_bio env (rq_bio rq);
     (rq1, bio1) \<leftarrow> (case h_cmdp hdr of
        Some cdb \<Rightarrow> set_position cdb (prepare_request rq) bio
      | None \<Rightarrow> Some (prepare_request rq, bio));
     Some (blk_complete_sghdr_rq env (execute_and_wait dev rq1)
             (hdr\<lparr>h_duration := be_elapsed_msecs env\<rparr>) (Some bio1)) }"

definition sg_kern_io ::
    "blk_env \<Rightarrow> (blk_request \<Rightarrow> completion) \<Rightarrow> sg_io_hdr \<Rightarrow> bool \<Rightarrow> sg_result option" where
  "sg_kern_io env dev hdr fmode_write =
     (let e = sg_header_check env hdr;
          writing = (h_dxfer_len hdr \<noteq> 0 \<and> h_dxfer_direction hdr = SG_DXFER_TO_DEV)
      in if e \<noteq> 0 then sg_early e hdr None
      else if be_get_request_fails env then sg_early (- ENOMEM) hdr None
      else do {
        (r, rq) \<leftarrow> blk_kern_fill_sghdr_rq env (new_request writing) hdr fmode_write;
        if r \<noteq> 0 then sg_early (- EFAULT) hdr (Some (blk_put_request rq))
        else
          let (ret, rq') = map_data env hdr rq in
          if ret \<noteq> 0 then sg_early ret hdr (Some (blk_put_request rq'))
          else sg_kern_issue env dev hdr rq' })"

datatype ioctl_cmd = SG_IO | Other_ioctl

definition scsi_kern_ioctl ::
    "blk_env \<Rightarrow> (blk_request \<Rightarrow> completion) \<Rightarrow> bool \<Rightarrow> ioctl_cmd \<Rightarrow> sg_io_hdr \<Rightarrow> sg_result option" where
  "scsi_kern_ioctl env dev fmode_write cmd hdr =
     (if be_queue_dead env then sg_early (- ENXIO) hdr None
      else (case cmd of
              SG_IO \<Rightarrow> sg_kern_io env dev hdr fmode_write
            | Other_ioctl \<Rightarrow> sg_early (- ENOTTY) hdr None))"

section \<open>The two sense parsers agree\<close>

lemma response_mask: "(b AND 0x7f) AND 0x70 = 0x70 AND (b :: u8)"
proof -
  have "(b AND 0x7f) AND 0x70 = b AND (0x7f AND 0x70)" by (rule and.assoc)
  then show ?thesis by (simp add: and.commute)
qed

lemma parsers_agree:
  assumes "sb_len \<noteq> 0"
  shows "map_option (\<lambda>(r, h). if r = 0 then None else Some h) (scsi_normalize_sense b sb_len) =
         map_option (\<lambda>(r, h). if r = 0 then None else Some h) (sg_scsi_normalize_sense (Some b) sb_len)"
proof (cases "fetch b 0")
  case None
  with assms show ?thesis
    by (simp add: scsi_normalize_sense_def sg_scsi_normalize_sense_def)
next
  case (Some b0)
  show ?thesis
  proof (cases "0x70 AND b0 = 0x70")
    case True
    then have mask: "(b0 AND 0x7f) AND 0x70 = 0x70" by (simp only: response_mask)
    from assms Some True mask show ?thesis
      unfolding scsi_normalize_sense_def sg_scsi_normalize_sense_def Let_def
        normalize_descriptor_def normalize_fixed_def
      by (cases "7 < sb_len")
        (simp_all add: and.commute [of b0] and.commute [of _ "0xf :: u8"] map_option_bind comp_def
          split: if_splits)
  next
    case False
    then have mask: "(b0 AND 0x7f) AND 0x70 \<noteq> 0x70" by (simp only: response_mask) simp
    from assms Some False mask show ?thesis
      by (simp add: scsi_normalize_sense_def sg_scsi_normalize_sense_def Let_def)
  qed
qed

section \<open>The sense buffer of a completed request\<close>

lemma length_sense_buffer [simp]: "length (sense_buffer cmd) = 96"
  by (simp add: sense_buffer_def)

lemma scsi_io_completion_sense:
  assumes "length (rq_sense rq) = 96" and "rq_sense_len rq \<le> 96"
  shows "length (rq_sense (scsi_io_completion cmd rq)) = 96 \<and>
         rq_sense_len (scsi_io_completion cmd rq) \<le> 96"
  using assms by (simp add: scsi_io_completion_def Let_def)

lemma execute_sense:
  assumes "length (rq_sense rq) = 96" and "rq_sense_len rq \<le> 96"
  shows "length (rq_sense (execute_and_wait dev rq)) = 96 \<and>
         rq_sense_len (execute_and_wait dev rq) \<le> 96"
  using scsi_io_completion_sense [OF assms] assms
  by (simp add: execute_and_wait_def sg_kern_complete_rq_def blk_put_request_def
      split: completion.split)

section \<open>The pass-through interface\<close>

text \<open>
  What a client of SG_IO may rely on: the command block is not exchanged, and when the
  caller's sense buffer has room for \<open>mx_sb_len\<close> bytes, the count of bytes written never
  exceeds the buffer, whose size does not change.
\<close>

definition sense_room :: "nat \<Rightarrow> sg_io_hdr \<Rightarrow> bool" where
  "sense_room n h \<longleftrightarrow>
     (\<exists>buf. h_sbp h = Some buf \<and> length buf = n \<and> unat (h_mx_sb_len h) \<le> n \<and> unat (h_sb_len_wr h) \<le> n)"

locale sg_passthrough =
  fixes ioctl :: "sg_io_hdr \<Rightarrow> sg_result option"
  assumes keeps_cmdp: "ioctl h = Some r \<Longrightarrow> h_cmdp (sr_hdr r) = h_cmdp h"
    and keeps_room: "ioctl h = Some r \<Longrightarrow> sense_room n h \<Longrightarrow> sense_room n (sr_hdr r)"

lemma copy_sense_room:
  assumes "length (rq_sense rq) = 96" and "rq_sense_len rq \<le> 96"
    and "sense_room n h" and "copy_sense env rq (fill_status rq h) = (e, h')"
  shows "sense_room n h'"
proof -
  obtain buf where buf: "h_sbp h = Some buf" "length buf = n" "unat (h_mx_sb_len h) \<le> n"
    using assms(3) by (auto simp: sense_room_def)
  let ?len = "min (unat (h_mx_sb_len h)) (rq_sense_len rq)"
  have "?len < 256" using unat_u8_less [of "h_mx_sb_len h"] by simp
  then have "unat (of_nat ?len :: u8) = ?len"
    by (simp add: unsigned_of_nat take_bit_nat_eq_self)
  with buf assms(1,2,4) show ?thesis
    by (auto simp: copy_sense_def fill_status_def sense_room_def Let_def split: if_splits)
qed

lemma copy_sense_cmdp: "copy_sense env rq (fill_status rq h) = (e, h') \<Longrightarrow> h_cmdp h' = h_cmdp h"
  by (auto simp: copy_sense_def fill_status_def Let_def split: option.splits if_splits)

lemma prepare_request_sense:
  "length (rq_sense (prepare_request rq)) = 96 \<and> rq_sense_len (prepare_request rq) = 0"
  by (simp add: prepare_request_def)

lemma set_position_sense:
  "set_position cdb rq bio = Some (rq', bio') \<Longrightarrow>
     rq_sense rq' = rq_sense rq \<and> rq_sense_len rq' = rq_sense_len rq"
  by (auto simp: set_position_def split: Option.bind_splits)

lemma sg_kern_issue_hdr:
  assumes "sg_kern_issue env dev h rq = Some r"
  shows "\<exists>rq' e. length (rq_sense rq') = 96 \<and> rq_sense_len rq' \<le> 96 \<and>
           copy_sense env rq' (fill_status rq' (h\<lparr>h_duration := be_elapsed_msecs env\<rparr>)) = (e, sr_hdr r)"
proof -
  obtain bio rq1 bio1 where
    pos: "(case h_cmdp h of Some cdb \<Rightarrow> set_position cdb (prepare_request rq) bio
           | None \<Rightarrow> Some (prepare_request rq, bio)) = Some (rq1, bio1)" and
    r: "r = blk_complete_sghdr_rq env (execute_and_wait dev rq1)
              (h\<lparr>h_duration := be_elapsed_msecs env\<rparr>) (Some bio1)"
    using assms by (auto simp: sg_kern_issue_def split: Option.bind_splits)
  have "length (rq_sense rq1) = 96 \<and> rq_sense_len rq1 \<le> 96"
    using pos set_position_sense prepare_request_sense [of rq] by (auto split: option.splits)
  then have "length (rq_sense (execute_and_wait dev rq1)) = 96 \<and>
      rq_sense_len (execute_and_wait dev rq1) \<le> 96"
    using execute_sense by blast
  then show ?thesis
    by (auto simp: r blk_complete_sghdr_rq_def split: prod.splits)
qed

lemma sense_room_duration [simp]: "sense_room n (h\<lparr>h_duration := d\<rparr>) = sense_room n h"
  by (simp add: sense_room_def)

lemma sg_early_hdr: "sg_early e h rq = Some r \<Longrightarrow> sr_hdr r = h"
  by (auto simp: sg_early_def)

lemma sg_kern_io_cases:
  assumes "sg_kern_io env dev h w = Some r"
  shows "sr_hdr r = h \<or> (\<exists>rq. sg_kern_issue env dev h rq = Some r)"
  using assms
  by (auto simp: sg_kern_io_def Let_def dest: sg_early_hdr
      split: if_splits Option.bind_splits prod.splits)

lemma scsi_kern_ioctl_cases:
  assumes "scsi_kern_ioctl env dev w cmd h = Some r"
  shows "sr_hdr r = h \<or> (\<exists>rq. sg_kern_issue env dev h rq = Some r)"
  using assms
  by (auto simp: scsi_kern_ioctl_def dest: sg_early_hdr sg_kern_io_cases
      split: if_splits ioctl_cmd.splits)

interpretation kern: sg_passthrough "scsi_kern_ioctl env dev w cmd" for env dev w cmd
proof
  fix h r
  assume io: "scsi_kern_ioctl env dev w cmd h = Some r"
  show "h_cmdp (sr_hdr r) = h_cmdp h"
    using scsi_kern_ioctl_cases [OF io] by (auto dest!: sg_kern_issue_hdr copy_sense_cmdp)
  show "sense_room n (sr_hdr r)" if "sense_room n h" for n
    using scsi_kern_ioctl_cases [OF io]
  proof (elim disjE exE)
    fix rq
    assume "sg_kern_issue env dev h rq = Some r"
    then obtain rq' e where "length (rq_sense rq') = 96" "rq_sense_len rq' \<le> 96"
        "copy_sense env rq' (fill_status rq' (h\<lparr>h_duration := be_elapsed_msecs env\<rparr>)) = (e, sr_hdr r)"
      using sg_kern_issue_hdr by blast
    with that show ?thesis using copy_sense_room sense_room_duration by blast
  qed (simp add: that)
qed

section \<open>Scrub commands always reach the device\<close>

lemma verify10_permitted: "blk_verify_command rawio 0x2f w = 0"
  by (simp add: blk_verify_command_def filter_read_ok_def)

text \<open>The environment in which nothing outside the command itself fails.\<close>

definition good_env :: "blk_env \<Rightarrow> bool" where
  "good_env env \<longleftrightarrow> \<not> be_queue_dead env \<and> \<not> be_get_request_fails env \<and>
     \<not> be_copy_to_user_fails env \<and> \<not> be_bio_alloc_fails env"

definition sample_env :: blk_env where
  "sample_env = \<lparr>be_queue_dead = False, be_get_request_fails = False, be_rawio = False,
     be_max_hw_sectors = 1024, be_sg_timeout = 15000, be_hz = 250, be_msecs_to_jiffies = (\<lambda>ms. ms div 4),
     be_elapsed_msecs = 3, be_copy_to_user_fails = False, be_map_user = (0, None), be_copy_iov = 0,
     be_bio_alloc_fails = False\<rparr>"

lemma good_sample_env [simp]: "good_env sample_env"
  by (simp add: good_env_def sample_env_def)

text \<open>A header without data transfer that carries a ten-byte VERIFY command block.\<close>

definition scrub_hdr :: "sg_io_hdr \<Rightarrow> u8 list \<Rightarrow> bool" where
  "scrub_hdr h cdb \<longleftrightarrow> h_interface_id h = CHR ''S'' \<and> h_cmd_len h = 10 \<and> h_dxfer_len h = 0 \<and>
     h_iovec_count h = 0 \<and> h_cmdp h = Some cdb \<and> length cdb = 10 \<and> cdb ! 0 = 0x2f"

text \<open>The request the device is given for such a header.\<close>

definition scrub_request :: "blk_env \<Rightarrow> sg_io_hdr \<Rightarrow> u8 list \<Rightarrow> blk_request" where
  "scrub_request env h cdb =
     (prepare_request (new_request False))\<lparr>rq_cmd := cdb @ replicate 6 0, rq_cmd_len := 10,
        rq_block_pc := True, rq_timeout := request_timeout env (h_timeout h),
        rq_sector := cdb_sector (cdb ! 2) (cdb ! 3) (cdb ! 4) (cdb ! 5),
        rq_data_len := cdb_bytes (cdb ! 7) (cdb ! 8)\<rparr>"

definition scrub_request_bio :: "u8 list \<Rightarrow> blk_bio" where
  "scrub_request_bio cdb =
     \<lparr>bio_sector = cdb_sector (cdb ! 2) (cdb ! 3) (cdb ! 4) (cdb ! 5),
      bio_size = cdb_bytes (cdb ! 7) (cdb ! 8), bio_null_mapped = True, bio_cnt = 2\<rparr>"

lemma scrub_header_ok: "scrub_hdr h cdb \<Longrightarrow> sg_header_check env h = 0"
  by (simp add: scrub_hdr_def sg_header_check_def)

lemma scrub_fill:
  assumes "scrub_hdr h cdb"
  shows "blk_kern_fill_sghdr_rq env (new_request False) h w =
           Some (0, (new_request False)\<lparr>rq_cmd := cdb @ replicate 6 0, rq_cmd_len := 10,
             rq_block_pc := True, rq_timeout := request_timeout env (h_timeout h)\<rparr>)"
  using assms
  by (auto simp: scrub_hdr_def blk_kern_fill_sghdr_rq_def new_request_def Let_def fetch_def
      nth_append verify10_permitted)

lemma scrub_issue:
  assumes "scrub_hdr h cdb" and "good_env env"
  shows "sg_kern_issue env dev h
           ((new_request False)\<lparr>rq_cmd := cdb @ replicate 6 0, rq_cmd_len := 10,
             rq_block_pc := True, rq_timeout := request_timeout env (h_timeout h)\<rparr>)
         = Some (blk_complete_sghdr_rq env (execute_and_wait dev (scrub_request env h cdb))
             (h\<lparr>h_duration := be_elapsed_msecs env\<rparr>) (Some (scrub_request_bio cdb)))"
proof -
  have "2 < length cdb" "3 < length cdb" "4 < length cdb" "5 < length cdb" "7 < length cdb"
      "8 < length cdb" "h_cmdp h = Some cdb"
    using assms(1) by (simp_all add: scrub_hdr_def)
  then show ?thesis
    using assms(2)
    by (simp add: sg_kern_issue_def scrub_bio_def set_position_def good_env_def scrub_request_def
        scrub_request_bio_def new_request_def prepare_request_def)
qed

lemma scsi_kern_ioctl_scrub:
  assumes "scrub_hdr h cdb" and "good_env env"
  shows "scsi_kern_ioctl env dev w SG_IO h =
           Some (blk_complete_sghdr_rq env (execute_and_wait dev (scrub_request env h cdb))
             (h\<lparr>h_duration := be_elapsed_msecs env\<rparr>) (Some (scrub_request_bio cdb)))"
proof -
  have "h_dxfer_len h = 0" "h_iovec_count h = 0" using assms(1) by (simp_all add: scrub_hdr_def)
  then have "sg_kern_io env dev h w = sg_kern_issue env dev h
      ((new_request False)\<lparr>rq_cmd := cdb @ replicate 6 0, rq_cmd_len := 10,
             rq_block_pc := True, rq_timeout := request_timeout env (h_timeout h)\<rparr>)"
    using assms(2) scrub_header_ok [OF assms(1), of env] scrub_fill [OF assms(1), of env w]
    by (simp add: sg_kern_io_def good_env_def map_data_def)
  with scrub_issue [OF assms] assms(2) show ?thesis
    by (simp add: scsi_kern_ioctl_def good_env_def)
qed

section \<open>References are balanced\<close>

definition completes :: "(blk_request \<Rightarrow> completion) \<Rightarrow> bool" where
  "completes dev \<longleftrightarrow> (\<forall>rq. dev rq \<noteq> Interrupted)"

lemma scsi_io_completion_ref [simp]:
  "rq_ref_count (scsi_io_completion cmd rq) = rq_ref_count rq"
  by (simp add: scsi_io_completion_def Let_def)

lemma execute_ref:
  "completes dev \<Longrightarrow> rq_ref_count (execute_and_wait dev rq) = rq_ref_count rq - 1"
  by (cases "dev rq")
    (auto simp: completes_def execute_and_wait_def sg_kern_complete_rq_def blk_put_request_def)

lemma set_position_ref:
  "set_position cdb rq bio = Some (rq', bio') \<Longrightarrow>
     rq_ref_count rq' = rq_ref_count rq \<and> bio_cnt bio' = bio_cnt bio"
  by (auto simp: set_position_def split: Option.bind_splits)

lemma unmap_ref: "snd (blk_rq_unmap_user env (Some b)) = Some b' \<Longrightarrow> bio_cnt b' = bio_cnt b - 2"
  by (auto simp: blk_rq_unmap_user_def bio_uncopy_user_def bio_put_def)

lemma sg_kern_issue_balanced:
  assumes "sg_kern_issue env dev h rq = Some r" and "completes dev" and "rq_ref_count rq = 1"
    and "\<And>b. rq_bio rq = Some b \<Longrightarrow> bio_cnt b = 2"
  shows "\<exists>rq' bio. sr_rq r = Some rq' \<and> rq_ref_count rq' = 0 \<and> sr_bio r = Some bio \<and> bio_cnt bio = 0"
proof -
  obtain bio rq1 bio1 where
    bio: "scrub_bio env (rq_bio rq) = Some bio" and
    pos: "(case h_cmdp h of Some cdb \<Rightarrow> set_position cdb (prepare_request rq) bio
           | None \<Rightarrow> Some (prepare_request rq, bio)) = Some (rq1, bio1)" and
    r: "r = blk_complete_sghdr_rq env (execute_and_wait dev rq1)
              (h\<lparr>h_duration := be_elapsed_msecs env\<rparr>) (Some bio1)"
    using assms(1) by (auto simp: sg_kern_issue_def split: Option.bind_splits)
  have "bio_cnt bio = 2"
    using bio assms(4) by (auto simp: scrub_bio_def split: option.splits if_splits)
  then have "bio_cnt bio1 = 2" and "rq_ref_count rq1 = 2"
    using pos set_position_ref assms(3) by (fastforce simp: prepare_request_def split: option.splits)+
  then show ?thesis
    using execute_ref [OF assms(2), of rq1]
    by (auto simp: r blk_complete_sghdr_rq_def blk_put_request_def blk_rq_unmap_user_def
        bio_uncopy_user_def bio_put_def split: prod.splits)
qed

lemma blk_fill_ref:
  "blk_kern_fill_sghdr_rq env rq h w = Some (e, rq') \<Longrightarrow>
     rq_ref_count rq' = rq_ref_count rq \<and> rq_bio rq' = rq_bio rq"
  by (auto simp: blk_kern_fill_sghdr_rq_def Let_def split: if_splits Option.bind_splits)

lemma sg_kern_io_balanced:
  assumes "sg_kern_io env dev h w = Some r" and "completes dev"
    and "\<And>b. snd (be_map_user env) = Some b \<Longrightarrow> bio_cnt b = 2"
  shows "\<forall>rq. sr_rq r = Some rq \<longrightarrow> rq_ref_count rq = 0"
    and "\<forall>b. sr_bio r = Some b \<longrightarrow> bio_cnt b = 0"
proof -
  consider (no_rq) "sr_rq r = None" "sr_bio r = None"
    | (early) rq where "sr_rq r = Some (blk_put_request rq)" "rq_ref_count rq = 1" "sr_bio r = None"
    | (issue) rq where "sg_kern_issue env dev h rq = Some r" "rq_ref_count rq = 1"
        "rq_bio rq = None \<or> rq_bio rq = snd (be_map_user env)"
    using assms(1)
    by (auto simp: sg_kern_io_def sg_early_def map_data_def Let_def new_request_def
        dest!: blk_fill_ref split: if_splits Option.bind_splits)
  then have "(\<forall>rq. sr_rq r = Some rq \<longrightarrow> rq_ref_count rq = 0) \<and> (\<forall>b. sr_bio r = Some b \<longrightarrow> bio_cnt b = 0)"
  proof cases
    case no_rq
    then show ?thesis by simp
  next
    case early
    then show ?thesis by (simp add: blk_put_request_def)
  next
    case issue
    have "\<And>b. rq_bio rq = Some b \<Longrightarrow> bio_cnt b = 2" using issue(3) assms(3) by auto
    from sg_kern_issue_balanced [OF issue(1) assms(2) issue(2) this] show ?thesis by auto
  qed
  then show "\<forall>rq. sr_rq r = Some rq \<longrightarrow> rq_ref_count rq = 0"
    and "\<forall>b. sr_bio r = Some b \<longrightarrow> bio_cnt b = 0" by auto
qed

section \<open>Properties\<close>

text \<open>
  C15: The scrubber's sense parser \<open>sg_scsi_normalize_sense\<close> and the kernel's
  \<open>scsi_normalize_sense\<close> accept the same buffers, give the same header for them and fault
  on the same buffers.
\<close>

theorem sense_parsers_equivalent:
  assumes "sb_len \<noteq> 0"
  shows "map_option (\<lambda>(r, h). if r = 0 then None else Some h) (scsi_normalize_sense b sb_len) =
         map_option (\<lambda>(r, h). if r = 0 then None else Some h) (sg_scsi_normalize_sense (Some b) sb_len)"
  by (rule parsers_agree [OF assms])

theorem sense_parsers_equivalent_witness:
  "map_option (\<lambda>(r, h). if r = 0 then None else Some h) (scsi_normalize_sense [0x72, 3, 0x11, 0] 4) =
   map_option (\<lambda>(r, h). if r = 0 then None else Some h) (sg_scsi_normalize_sense (Some [0x72, 3, 0x11, 0]) 4)"
  using sense_parsers_equivalent [of 4 "[0x72, 3, 0x11, 0]"] by simp

text \<open>
  C14: Whatever the outcome of \<open>sg_kern_io\<close>, once the device completes the command no
  reference is left: the request and the bio end with the count 0, on the error paths as
  on the normal one.
\<close>

theorem sg_kern_io_releases:
  assumes "sg_kern_io env dev h w = Some r" and "completes dev"
    and "\<And>b. snd (be_map_user env) = Some b \<Longrightarrow> bio_cnt b = 2"
  shows "(\<forall>rq. sr_rq r = Some rq \<longrightarrow> rq_ref_count rq = 0) \<and> (\<forall>b. sr_bio r = Some b \<longrightarrow> bio_cnt b = 0)"
  using sg_kern_io_balanced [OF assms] by simp

theorem sg_kern_io_releases_witness:
  "\<exists>h r. sg_kern_io sample_env (\<lambda>_. Completed \<lparr>sc_result = 0, sc_sense = [], sc_resid = 0\<rparr>) h False = Some r \<and>
     sr_rq r \<noteq> None \<and> sr_bio r \<noteq> None \<and>
     (\<forall>rq. sr_rq r = Some rq \<longrightarrow> rq_ref_count rq = 0) \<and> (\<forall>b. sr_bio r = Some b \<longrightarrow> bio_cnt b = 0)"
proof -
  let ?dev = "\<lambda>_. Completed \<lparr>sc_result = 0, sc_sense = [], sc_resid = 0\<rparr>"
  let ?cdb = "[0x2f, 0, 0, 0, 0, 7, 0, 0, 8, 0]"
  let ?h = "\<lparr>h_interface_id = CHR ''S'', h_dxfer_direction = -1, h_cmd_len = 10, h_mx_sb_len = 0,
      h_iovec_count = 0, h_dxfer_len = 0, h_cmdp = Some ?cdb, h_sbp = None, h_timeout = 0,
      h_status = 0, h_masked_status = 0, h_msg_status = 0, h_sb_len_wr = 0, h_host_status = 0,
      h_driver_status = 0, h_resid = 0, h_duration = 0, h_info = 0\<rparr>"
  have hdr: "scrub_hdr ?h ?cdb" by (simp add: scrub_hdr_def)
  define r where "r = blk_complete_sghdr_rq sample_env (execute_and_wait ?dev (scrub_request sample_env ?h ?cdb))
      (?h\<lparr>h_duration := be_elapsed_msecs sample_env\<rparr>) (Some (scrub_request_bio ?cdb))"
  have io: "sg_kern_io sample_env ?dev ?h False = Some r"
    using scsi_kern_ioctl_scrub [OF hdr good_sample_env, of ?dev False]
    by (simp add: scsi_kern_ioctl_def sample_env_def r_def)
  have "sr_rq r \<noteq> None" "sr_bio r \<noteq> None"
    by (simp_all add: r_def blk_complete_sghdr_rq_def blk_rq_unmap_user_def bio_uncopy_user_def split: prod.split)
  with io sg_kern_io_releases [OF io] show ?thesis
    by (auto simp: completes_def sample_env_def)
qed

end
