(* ===== verification/Scsi_Verify.thy ===== *)
theory Scsi_Verify
  imports Sg_Io
begin

text \<open>
  The VERIFY(10) command of \<^verbatim>\<open>block/scrub_verify.c\<close>: the pass-through object
  (\<open>construct_scsi_pt_obj\<close>, \<open>set_scsi_pt_cdb\<close>, \<open>set_scsi_pt_sense\<close>, \<open>do_scsi_pt\<close>), the
  interpretation of its result (\<open>get_scsi_pt_result_category\<close>, \<open>sg_cmds_process_resp\<close>),
  \<open>sg_ll_verify10\<close> and \<open>scsi_verify\<close>.

  \<open>do_scsi_pt\<close> takes the ioctl it calls as an argument; what it relies on is the locale
  \<open>sg_passthrough\<close>, interpreted on \<^const>\<open>scsi_kern_ioctl\<close>. The messages gated by
  \<open>verbose\<close> are not modelled; the report that \<open>scsi_verify\<close> prints for every failed
  command is the datatype \<open>verify_msg\<close>.
\<close>

section \<open>The pass-through object\<close>

record sg_pt_scsi =
  pt_hdr :: sg_io_hdr
  pt_in_err :: int
  pt_os_err :: int

abbreviation (input) SENSE_BUFF_LEN :: nat where "SENSE_BUFF_LEN \<equiv> 32"
abbreviation (input) DEF_PT_TIMEOUT :: int where "DEF_PT_TIMEOUT \<equiv> 60"
abbreviation (input) SCSI_PT_DO_BAD_PARAMS :: int where "SCSI_PT_DO_BAD_PARAMS \<equiv> 1"
abbreviation (input) SCSI_PT_DO_TIMEOUT :: int where "SCSI_PT_DO_TIMEOUT \<equiv> 2"

definition zero_hdr :: sg_io_hdr where
  "zero_hdr = \<lparr>h_interface_id = NUL, h_dxfer_direction = 0, h_cmd_len = 0, h_mx_sb_len = 0,
     h_iovec_count = 0, h_dxfer_len = 0, h_cmdp = None, h_sbp = None, h_timeout = 0,
     h_status = 0, h_masked_status = 0, h_msg_status = 0, h_sb_len_wr = 0, h_host_status = 0,
     h_driver_status = 0, h_resid = 0, h_duration = 0, h_info = 0\<rparr>"

definition construct_scsi_pt_obj :: "bool \<Rightarrow> sg_pt_scsi option" where
  "construct_scsi_pt_obj alloc_fails =
     (if alloc_fails then None
      else Some \<lparr>pt_hdr = zero_hdr\<lparr>h_interface_id := CHR ''S'', h_dxfer_direction := SG_DXFER_NONE,
                     h_iovec_count := 0, h_dxfer_len := 0\<rparr>,
                 pt_in_err = 0, pt_os_err = 0\<rparr>)"

definition set_scsi_pt_cdb :: "sg_pt_scsi \<Rightarrow> u8 list \<Rightarrow> sg_pt_scsi" where
  "set_scsi_pt_cdb ptp cdb =
     ptp\<lparr>pt_in_err := (if h_cmdp (pt_hdr ptp) \<noteq> None then pt_in_err ptp + 1 else pt_in_err ptp),
         pt_hdr := (pt_hdr ptp)\<lparr>h_cmdp := Some cdb, h_cmd_len := of_nat (length cdb)\<rparr>\<rparr>"

definition set_scsi_pt_sense :: "sg_pt_scsi \<Rightarrow> nat \<Rightarrow> sg_pt_scsi" where
  "set_scsi_pt_sense ptp max_sense_len =
     ptp\<lparr>pt_in_err := (if h_sbp (pt_hdr ptp) \<noteq> None then pt_in_err ptp + 1 else pt_in_err ptp),
         pt_hdr := (pt_hdr ptp)\<lparr>h_sbp := Some (replicate max_sense_len 0),
                                h_mx_sb_len := of_nat max_sense_len\<rparr>\<rparr>"

definition clear_sense :: "sg_io_hdr \<Rightarrow> sg_io_hdr" where
  "clear_sense hdr =
     (case h_sbp hdr of
        None \<Rightarrow> hdr
      | Some buf \<Rightarrow>
          if h_mx_sb_len hdr > 0
          then hdr\<lparr>h_sbp := Some (replicate (unat (h_mx_sb_len hdr)) 0
                                   @ drop (unat (h_mx_sb_len hdr)) buf)\<rparr>
          else hdr)"

definition do_scsi_pt ::
    "(sg_io_hdr \<Rightarrow> sg_result option) \<Rightarrow> sg_pt_scsi \<Rightarrow> int \<Rightarrow> (int \<times> sg_pt_scsi) option" where
  "do_scsi_pt ioctl ptp0 time_secs =
     (let ptp = ptp0\<lparr>pt_os_err := 0\<rparr> in
      if pt_in_err ptp \<noteq> 0 then Some (SCSI_PT_DO_BAD_PARAMS, ptp)
      else if h_cmdp (pt_hdr ptp) = None then Some (SCSI_PT_DO_BAD_PARAMS, ptp)
      else do {
        let hdr = clear_sense ((pt_hdr ptp)\<lparr>h_timeout :=
                    (if time_secs > 0 then of_int (time_secs * 1000) else 60000)\<rparr>);
        r \<leftarrow> ioctl hdr;
        let ptp' = ptp\<lparr>pt_hdr := sr_hdr r, pt_os_err := sr_ret r\<rparr>;
        if sr_ret r < 0 then Some (- sr_ret r, ptp') else Some (0, ptp') })"

section \<open>The result of the command\<close>

datatype pt_category = RESULT_GOOD | RESULT_STATUS | RESULT_SENSE | RESULT_TRANSPORT_ERR | RESULT_OS_ERR

definition get_scsi_pt_result_category :: "sg_pt_scsi \<Rightarrow> pt_category" where
  "get_scsi_pt_result_category ptp =
     (let dr_st = h_driver_status (pt_hdr ptp) AND 0x0f;
          scsi_st = h_status (pt_hdr ptp) AND 0x7e
      in if pt_os_err ptp \<noteq> 0 then RESULT_OS_ERR
         else if h_host_status (pt_hdr ptp) \<noteq> 0 then RESULT_TRANSPORT_ERR
         else if dr_st \<noteq> 0 \<and> dr_st \<noteq> 0x08 then RESULT_TRANSPORT_ERR
         else if dr_st = 0x08 \<or> scsi_st = 0x2 \<or> scsi_st = 0x22 then RESULT_SENSE
         else if scsi_st \<noteq> 0 then RESULT_STATUS
         else RESULT_GOOD)"

text \<open>
  The return value and, when it is \<open>-2\<close>, the sense category written to \<open>o_sense_cat\<close>.
\<close>

definition sg_cmds_process_resp ::
    "sg_pt_scsi \<Rightarrow> int \<Rightarrow> u8 list option \<Rightarrow> (int \<times> int option) option" where
  "sg_cmds_process_resp ptp res sense_b =
     (if res < 0 then Some (-1, None)
      else if res = SCSI_PT_DO_BAD_PARAMS then Some (-1, None)
      else if res = SCSI_PT_DO_TIMEOUT then Some (-1, None)
      else (case get_scsi_pt_result_category ptp of
              RESULT_GOOD \<Rightarrow> Some (0, None)
            | RESULT_STATUS \<Rightarrow> Some (-1, None)
            | RESULT_SENSE \<Rightarrow> do {
                scat \<leftarrow> sg_err_category_sense sense_b (uint (h_sb_len_wr (pt_hdr ptp)));
                Some (-2, Some scat) }
            | RESULT_TRANSPORT_ERR \<Rightarrow> Some (-1, None)
            | RESULT_OS_ERR \<Rightarrow> Some (-1, None)))"

section \<open>VERIFY (10)\<close>

text \<open>The command block; \<open>lba\<close> is 64 bits wide, \<open>veri_len\<close> is a C \<open>int\<close>.\<close>

definition verify10_flags :: "int \<Rightarrow> int \<Rightarrow> int \<Rightarrow> u8" where
  "verify10_flags vrprotect dpo bytechk =
     push_bit 5 (of_int vrprotect AND 0x7) OR push_bit 4 (of_int dpo AND 0x1)
       OR push_bit 1 (of_int bytechk AND 0x1)"

definition verify10_cdb :: "int \<Rightarrow> int \<Rightarrow> int \<Rightarrow> u64 \<Rightarrow> u32 \<Rightarrow> u8 list" where
  "verify10_cdb vrprotect dpo bytechk lba veri_len =
     [0x2f, verify10_flags vrprotect dpo bytechk,
      ucast (drop_bit 24 lba AND 0xff), ucast (drop_bit 16 lba AND 0xff),
      ucast (drop_bit 8 lba AND 0xff), ucast (lba AND 0xff),
      0, ucast (drop_bit 8 veri_len AND 0xff), ucast (veri_len AND 0xff), 0]"

text \<open>
  The tail of \<open>sg_ll_verify10\<close>: the return code from the processed response, with the
  information field, when it is valid, stored through \<open>infop\<close>.
\<close>

definition verify10_ret :: "sg_pt_scsi \<Rightarrow> u8 list option \<Rightarrow> int \<times> int option \<Rightarrow> u32 \<Rightarrow> (int \<times> u32) option" where
  "verify10_ret ptp sense_b resp info0 =
     (let (ret, sense_cat) = resp in
      if ret = -1 then Some (-1, info0)
      else if ret = -2 then
        (case sense_cat of
           None \<Rightarrow> None
         | Some c \<Rightarrow>
             if c \<in> {SG_LIB_CAT_NOT_READY, SG_LIB_CAT_INVALID_OP, SG_LIB_CAT_ILLEGAL_REQ,
                      SG_LIB_CAT_UNIT_ATTENTION, SG_LIB_CAT_ABORTED_COMMAND}
             then Some (c, info0)
             else if c \<in> {SG_LIB_CAT_RECOVERED, SG_LIB_CAT_NO_SENSE} then Some (0, info0)
             else if c = SG_LIB_CAT_MEDIUM_HARD then do {
               buf \<leftarrow> sense_b;
               (valid, ull) \<leftarrow> sg_get_sense_info_fld buf (uint (h_sb_len_wr (pt_hdr ptp)));
               if valid \<noteq> 0 then Some (SG_LIB_CAT_MEDIUM_HARD_WITH_INFO, ucast ull)
               else Some (SG_LIB_CAT_MEDIUM_HARD, info0) }
             else Some (-1, info0))
      else Some (0, info0))"

definition sg_ll_verify10 ::
    "(sg_io_hdr \<Rightarrow> sg_result option) \<Rightarrow> bool \<Rightarrow> int \<Rightarrow> int \<Rightarrow> int \<Rightarrow> u64 \<Rightarrow> u32 \<Rightarrow> u32 \<Rightarrow> (int \<times> u32) option" where
  "sg_ll_verify10 ioctl alloc_fails vrprotect dpo bytechk lba veri_len info0 =
     (case construct_scsi_pt_obj alloc_fails of
        None \<Rightarrow> Some (-1, info0)
      | Some ptp0 \<Rightarrow> do {
          let ptp1 = set_scsi_pt_cdb ptp0 (verify10_cdb vrprotect dpo bytechk lba veri_len);
          let ptp2 = set_scsi_pt_sense ptp1 SENSE_BUFF_LEN;
          (res, ptp) \<leftarrow> do_scsi_pt ioctl ptp2 DEF_PT_TIMEOUT;
          resp \<leftarrow> sg_cmds_process_resp ptp res (h_sbp (pt_hdr ptp));
          verify10_ret ptp (h_sbp (pt_hdr ptp)) resp info0 })"

datatype verify_msg =
    Not_ready | Unit_attention | Aborted_command | Not_supported
  | Bad_field u64 | Medium_error u64 | Medium_error_at u32 | Failed_near u64

definition verify_report :: "int \<Rightarrow> u64 \<Rightarrow> u32 \<Rightarrow> verify_msg list" where
  "verify_report res lba info =
     (if res = 0 then []
      else if res = SG_LIB_CAT_NOT_READY then [Not_ready]
      else if res = SG_LIB_CAT_UNIT_ATTENTION then [Unit_attention]
      else if res = SG_LIB_CAT_ABORTED_COMMAND then [Aborted_command]
      else if res = SG_LIB_CAT_INVALID_OP then [Not_supported]
      else if res = SG_LIB_CAT_ILLEGAL_REQ then [Bad_field lba]
      else if res = SG_LIB_CAT_MEDIUM_HARD then [Medium_error lba]
      else if res = SG_LIB_CAT_MEDIUM_HARD_WITH_INFO then [Medium_error_at info]
      else [Failed_near lba])"

text \<open>
  \<open>scsi_verify\<close> with the fields of \<open>disk->scrubber\<close> it reads, \<open>vrprotect\<close> and \<open>dpo\<close>, as
  arguments: the return value and the messages printed.
\<close>

definition scsi_verify ::
    "(sg_io_hdr \<Rightarrow> sg_result option) \<Rightarrow> bool \<Rightarrow> int \<Rightarrow> int \<Rightarrow> u64 \<Rightarrow> u32 \<Rightarrow> (int \<times> verify_msg list) option" where
  "scsi_verify ioctl alloc_fails vrprotect dpo lba count = do {
     (res, info) \<leftarrow> sg_ll_verify10 ioctl alloc_fails vrprotect dpo 0 lba count 0;
     Some (if res \<ge> 0 then res else SG_LIB_CAT_OTHER, verify_report res lba info) }"

section \<open>The command block round trip\<close>

text \<open>What \<open>sg_kern_io\<close> reads back from the block that \<open>sg_ll_verify10\<close> wrote.\<close>

lemma byte_masks:
  "(0xff :: u64) = mask 8" "(0xff :: u32) = mask 8"
  "(0xff000000 :: u32) = push_bit 24 (mask 8)" "(0x00ff0000 :: u32) = push_bit 16 (mask 8)"
  "(0x0000ff00 :: u32) = push_bit 8 (mask 8)"
  by (simp_all add: mask_eq_exp_minus_1 push_bit_eq_mult)

lemma lba_bytes:
  "((push_bit 24 (ucast (ucast (drop_bit 24 lba AND 0xff :: u64) :: u8)) AND 0xff000000) OR
    (push_bit 16 (ucast (ucast (drop_bit 16 lba AND 0xff :: u64) :: u8)) AND 0x00ff0000) OR
    (push_bit 8 (ucast (ucast (drop_bit 8 lba AND 0xff :: u64) :: u8)) AND 0x0000ff00) OR
    (ucast (ucast (lba AND 0xff :: u64) :: u8) AND 0x000000ff) :: u32) = ucast lba"
  unfolding byte_masks
proof (rule bit_word_eqI)
  fix n
  assume n: "n < LENGTH(32)"
  then consider "n < 8" | "8 \<le> n" "n < 16" | "16 \<le> n" "n < 24" | "24 \<le> n" "n < 32"
    by fastforce
  then show "bit ((push_bit 24 (ucast (ucast (drop_bit 24 lba AND mask 8 :: u64) :: u8)) AND push_bit 24 (mask 8)) OR
      (push_bit 16 (ucast (ucast (drop_bit 16 lba AND mask 8 :: u64) :: u8)) AND push_bit 16 (mask 8)) OR
      (push_bit 8 (ucast (ucast (drop_bit 8 lba AND mask 8 :: u64) :: u8)) AND push_bit 8 (mask 8)) OR
      (ucast (ucast (lba AND mask 8 :: u64) :: u8) AND mask 8) :: u32) n = bit (ucast lba :: u32) n"
    by cases (auto simp: bit_simps)
qed

lemma len_bytes:
  "((push_bit 8 (ucast (ucast (drop_bit 8 len AND 0xff :: u32) :: u8)) AND 0x0000ff00) OR
    (ucast (ucast (len AND 0xff :: u32) :: u8) AND 0x000000ff) :: u32) = take_bit 16 len"
  unfolding byte_masks
proof (rule bit_word_eqI)
  fix n
  assume n: "n < LENGTH(32)"
  then consider "n < 8" | "8 \<le> n" "n < 16" | "16 \<le> n" "n < 32" by fastforce
  then show "bit ((push_bit 8 (ucast (ucast (drop_bit 8 len AND mask 8 :: u32) :: u8)) AND push_bit 8 (mask 8)) OR
      (ucast (ucast (len AND mask 8 :: u32) :: u8) AND mask 8) :: u32) n = bit (take_bit 16 len) n"
    by cases (auto simp: bit_simps)
qed

lemma verify10_cdb_sector:
  "c = verify10_cdb v d bc lba len \<Longrightarrow>
     cdb_sector (c ! 2) (c ! 3) (c ! 4) (c ! 5) = ucast (ucast lba :: u32)"
  unfolding cdb_sector_def verify10_cdb_def using lba_bytes [of lba] by simp

lemma verify10_cdb_bytes:
  "c = verify10_cdb v d bc lba len \<Longrightarrow> cdb_bytes (c ! 7) (c ! 8) = push_bit 9 (take_bit 16 len)"
  unfolding cdb_bytes_def verify10_cdb_def using len_bytes [of len] by simp

lemma length_verify10_cdb [simp]: "length (verify10_cdb v d bc lba len) = 10"
  by (simp add: verify10_cdb_def)

section \<open>The response is read inside the sense buffer\<close>

text \<open>The pass-through object as \<open>sg_ll_verify10\<close> sets it up, and the header it passes on.\<close>

definition verify_hdr :: "u8 list \<Rightarrow> sg_io_hdr" where
  "verify_hdr cdb = zero_hdr\<lparr>h_interface_id := CHR ''S'', h_dxfer_direction := SG_DXFER_NONE,
     h_cmdp := Some cdb, h_cmd_len := of_nat (length cdb),
     h_sbp := Some (replicate SENSE_BUFF_LEN 0), h_mx_sb_len := 32\<rparr>"

lemma verify_setup:
  assumes "construct_scsi_pt_obj False = Some ptp0"
  shows "set_scsi_pt_sense (set_scsi_pt_cdb ptp0 cdb) 32 =
           \<lparr>pt_hdr = verify_hdr cdb, pt_in_err = 0, pt_os_err = 0\<rparr>"
  using assms
  by (auto simp: construct_scsi_pt_obj_def set_scsi_pt_sense_def set_scsi_pt_cdb_def
      verify_hdr_def zero_hdr_def)

lemma verify_do_pt:
  "do_scsi_pt ioctl \<lparr>pt_hdr = verify_hdr cdb, pt_in_err = 0, pt_os_err = 0\<rparr> 60 = do {
     r \<leftarrow> ioctl ((verify_hdr cdb)\<lparr>h_timeout := 60000\<rparr>);
     Some (if sr_ret r < 0 then - sr_ret r else 0,
           \<lparr>pt_hdr = sr_hdr r, pt_in_err = 0, pt_os_err = sr_ret r\<rparr>) }"
  by (simp add: do_scsi_pt_def verify_hdr_def clear_sense_def zero_hdr_def Let_def cong: if_cong)
    (rule arg_cong [where f = "Option.bind _"], auto)

lemma verify_hdr_room: "sense_room 32 ((verify_hdr cdb)\<lparr>h_timeout := t\<rparr>)"
  by (simp add: sense_room_def verify_hdr_def zero_hdr_def)

lemma process_resp_in_bounds:
  assumes "sense_room n (pt_hdr ptp)"
  shows "\<exists>ret c. sg_cmds_process_resp ptp res (h_sbp (pt_hdr ptp)) = Some (ret, c) \<and>
           (ret = -2 \<longrightarrow> (\<exists>c'. c = Some c'))"
proof -
  obtain buf where buf: "h_sbp (pt_hdr ptp) = Some buf" "unat (h_sb_len_wr (pt_hdr ptp)) \<le> length buf"
    using assms by (auto simp: sense_room_def)
  then have "uint (h_sb_len_wr (pt_hdr ptp)) \<le> int (length buf)"
    by (metis int_ops(1) nat_int_comparison(3) of_nat_unat uint_nat)
  then obtain c where "sg_err_category_sense (Some buf) (uint (h_sb_len_wr (pt_hdr ptp))) = Some c"
    using err_category_sense_safe [of "uint (h_sb_len_wr (pt_hdr ptp))" buf] by auto
  with buf(1) show ?thesis
    by (simp add: sg_cmds_process_resp_def split: pt_category.split)
qed

lemma verify10_ret_defined:
  assumes "ret = -2 \<longrightarrow> (\<exists>c'. c = Some c')"
    and "sg_get_sense_info_fld buf (uint (h_sb_len_wr (pt_hdr ptp))) = Some y"
  shows "verify10_ret ptp (Some buf) (ret, c) info0 \<noteq> None"
proof (cases "ret = -2")
  case True
  then obtain c' where "c = Some c'" using assms(1) by blast
  with True assms(2) show ?thesis
    by (cases y) (simp add: verify10_ret_def)
next
  case False
  then show ?thesis by (simp add: verify10_ret_def)
qed

text \<open>The response is read, and the return code computed, from the header of the ioctl.\<close>

lemma verify10_via_ioctl:
  "sg_ll_verify10 ioctl False v d bc lba len info0 = do {
     r \<leftarrow> ioctl ((verify_hdr (verify10_cdb v d bc lba len))\<lparr>h_timeout := 60000\<rparr>);
     let ptp = \<lparr>pt_hdr = sr_hdr r, pt_in_err = 0, pt_os_err = sr_ret r\<rparr>;
     resp \<leftarrow> sg_cmds_process_resp ptp (if sr_ret r < 0 then - sr_ret r else 0) (h_sbp (sr_hdr r));
     verify10_ret ptp (h_sbp (sr_hdr r)) resp info0 }"
proof -
  obtain ptp0 where ptp0: "construct_scsi_pt_obj False = Some ptp0"
    by (simp add: construct_scsi_pt_obj_def)
  show ?thesis
    unfolding sg_ll_verify10_def ptp0 option.case Let_def verify_setup [OF ptp0] verify_do_pt
    by (cases "ioctl ((verify_hdr (verify10_cdb v d bc lba len))\<lparr>h_timeout := 60000\<rparr>)")
      (simp_all only: Option.bind.simps prod.case sg_pt_scsi.simps)
qed

context sg_passthrough
begin

lemma verify10_fault:
  assumes none: "sg_ll_verify10 ioctl False v d bc lba len info0 = None"
    and io: "ioctl ((verify_hdr (verify10_cdb v d bc lba len))\<lparr>h_timeout := 60000\<rparr>) = Some r"
  shows "\<exists>buf n. length buf = 32 \<and> 0 \<le> n \<and> n \<le> 32 \<and> sg_get_sense_info_fld buf n = None"
proof -
  let ?ptp = "\<lparr>pt_hdr = sr_hdr r, pt_in_err = 0, pt_os_err = sr_ret r\<rparr>"
  have room: "sense_room 32 (sr_hdr r)"
    by (rule keeps_room [OF io verify_hdr_room])
  then obtain buf where buf: "h_sbp (sr_hdr r) = Some buf" "length buf = 32"
      "unat (h_sb_len_wr (sr_hdr r)) \<le> 32"
    unfolding sense_room_def by blast
  let ?n = "uint (h_sb_len_wr (sr_hdr r))"
  obtain ret c where
    resp: "sg_cmds_process_resp ?ptp (if sr_ret r < 0 then - sr_ret r else 0) (Some buf) = Some (ret, c)"
    and c: "ret = -2 \<longrightarrow> (\<exists>c'. c = Some c')"
    using process_resp_in_bounds [of 32 ?ptp "if sr_ret r < 0 then - sr_ret r else 0"] room buf(1)
    by auto
  have "sg_get_sense_info_fld buf ?n = None"
  proof (rule ccontr)
    assume "sg_get_sense_info_fld buf ?n \<noteq> None"
    then have "verify10_ret ?ptp (Some buf) (ret, c) info0 \<noteq> None"
      using verify10_ret_defined [OF c, of buf ?ptp] by (metis not_None_eq sg_pt_scsi.select_convs(1))
    with none show False
      by (simp only: verify10_via_ioctl io buf(1) resp Option.bind.simps Let_def)
  qed
  moreover have "0 \<le> ?n" by simp
  moreover have "?n \<le> 32" using uint_le_of_unat_le [OF buf(3)] by simp
  ultimately show ?thesis using buf(2) by blast
qed

end

section \<open>The outcome of a verification\<close>

text \<open>The request that reaches the device for a verification of \<open>count\<close> sectors at \<open>lba\<close>.\<close>

definition verify_request :: "blk_env \<Rightarrow> int \<Rightarrow> int \<Rightarrow> u64 \<Rightarrow> u32 \<Rightarrow> blk_request" where
  "verify_request env vrprotect dpo lba count =
     (let cdb = verify10_cdb vrprotect dpo 0 lba count
      in scrub_request env ((verify_hdr cdb)\<lparr>h_timeout := 60000\<rparr>) cdb)"

definition verify_result ::
    "blk_env \<Rightarrow> (blk_request \<Rightarrow> completion) \<Rightarrow> int \<Rightarrow> int \<Rightarrow> u64 \<Rightarrow> u32 \<Rightarrow> sg_io_hdr" where
  "verify_result env dev vrprotect dpo lba count =
     (let rq = execute_and_wait dev (verify_request env vrprotect dpo lba count);
          hdr = (verify_hdr (verify10_cdb vrprotect dpo 0 lba count))\<lparr>h_timeout := 60000,
                  h_duration := be_elapsed_msecs env\<rparr>
      in snd (copy_sense env rq (fill_status rq hdr)))"

lemma verify_scrub_hdr:
  "scrub_hdr ((verify_hdr (verify10_cdb v d bc lba len))\<lparr>h_timeout := t\<rparr>) (verify10_cdb v d bc lba len)"
  by (simp add: scrub_hdr_def verify_hdr_def zero_hdr_def) (simp add: verify10_cdb_def)

lemma copy_sense_good: "good_env env \<Longrightarrow> fst (copy_sense env rq h) = 0"
  by (auto simp: copy_sense_def good_env_def Let_def split: option.split)

lemma verify_ioctl:
  assumes "good_env env"
  shows "\<exists>r. scsi_kern_ioctl env dev w SG_IO ((verify_hdr (verify10_cdb v d 0 lba len))\<lparr>h_timeout := 60000\<rparr>) = Some r
           \<and> sr_ret r = 0 \<and> sr_hdr r = verify_result env dev v d lba len"
proof -
  have "blk_rq_unmap_user env (Some (scrub_request_bio cdb)) =
      (0, Some (bio_put (bio_put (scrub_request_bio cdb))))" for cdb
    by (simp add: blk_rq_unmap_user_def bio_uncopy_user_def scrub_request_bio_def)
  then show ?thesis
    using scsi_kern_ioctl_scrub [OF verify_scrub_hdr assms, of dev w]
      copy_sense_good [OF assms]
    by (simp add: blk_complete_sghdr_rq_def verify_result_def verify_request_def Let_def
        split: prod.split)
      (metis fst_conv snd_conv)
qed

text \<open>The outcome is a function of the header the ioctl hands back.\<close>

definition verify_outcome :: "sg_io_hdr \<Rightarrow> u64 \<Rightarrow> (int \<times> verify_msg list) option" where
  "verify_outcome h lba = do {
     let ptp = \<lparr>pt_hdr = h, pt_in_err = 0, pt_os_err = 0\<rparr>;
     resp \<leftarrow> sg_cmds_process_resp ptp 0 (h_sbp h);
     (res, info) \<leftarrow> verify10_ret ptp (h_sbp h) resp 0;
     Some (if res \<ge> 0 then res else SG_LIB_CAT_OTHER, verify_report res lba info) }"

lemma scsi_verify_outcome:
  assumes "good_env env"
  shows "scsi_verify (scsi_kern_ioctl env dev w SG_IO) False v d lba len =
           verify_outcome (verify_result env dev v d lba len) lba"
proof -
  obtain r where r: "scsi_kern_ioctl env dev w SG_IO
        ((verify_hdr (verify10_cdb v d 0 lba len))\<lparr>h_timeout := 60000\<rparr>) = Some r"
      "sr_ret r = 0" "sr_hdr r = verify_result env dev v d lba len"
    using verify_ioctl [OF assms] by blast
  have if0: "(if (0 :: int) < 0 then - 0 else 0) = (0 :: int)" by simp
  show ?thesis
    unfolding scsi_verify_def verify10_via_ioctl r Option.bind.simps Let_def verify_outcome_def if0
    by (simp only: Option.bind_assoc)
qed

lemma verify_result_eq:
  "rq = execute_and_wait dev (verify_request env v d lba len) \<Longrightarrow>
   h_status (verify_result env dev v d lba len) = ucast (rq_errors rq AND 0xff) \<and>
   h_host_status (verify_result env dev v d lba len) = ucast (host_byte (rq_errors rq)) \<and>
   h_driver_status (verify_result env dev v d lba len) = ucast (driver_byte (rq_errors rq))"
  by (simp add: verify_result_def copy_sense_def fill_status_def Let_def split: option.split)

lemma verify_request_fields:
  "rq_errors (verify_request env v d lba len) = 0"
  "rq_sense (verify_request env v d lba len) = replicate 96 0"
  "rq_sense_len (verify_request env v d lba len) = 0"
  "rq_sector (verify_request env v d lba len) = ucast (ucast lba :: u32)"
  "rq_data_len (verify_request env v d lba len) = push_bit 9 (take_bit 16 len)"
  using verify10_cdb_sector [OF refl, of v d 0 lba len] verify10_cdb_bytes [OF refl, of v d 0 lba len]
  by (simp_all add: verify_request_def scrub_request_def prepare_request_def new_request_def Let_def)

lemma verify_request_sector: "unat (rq_sector (verify_request env v d lba n)) = unat lba mod 2 ^ 32"
  by (simp add: verify_request_fields unsigned_ucast_eq take_bit_eq_mod unat_mod)

lemma verify_request_len: "unat (rq_data_len (verify_request env v d lba n)) = 512 * (unat n mod 65536)"
proof -
  have t: "unat (take_bit 16 n) = unat n mod 65536" by (simp add: take_bit_eq_mod unat_mod)
  have "unat (take_bit 16 n * 512) = unat (take_bit 16 n) * unat (512 :: u32)"
    by (rule unat_mult_nowrap) (use mod_less_divisor [of 65536 "unat n"] in \<open>simp add: t\<close>)
  then show ?thesis by (simp add: verify_request_fields push_bit_eq_mult t)
qed

lemma outcome_good:
  assumes "h_status h = 0" and "h_host_status h = 0" and "h_driver_status h = 0"
  shows "verify_outcome h lba = Some (0, [])"
  using assms
  by (simp add: verify_outcome_def sg_cmds_process_resp_def get_scsi_pt_result_category_def
      verify10_ret_def verify_report_def)

lemma scsi_verify_no_error:
  assumes "good_env env"
    and "\<And>cmd. dev (verify_request env v d lba len) = Completed cmd \<Longrightarrow> sc_result cmd = 0"
  shows "scsi_verify (scsi_kern_ioctl env dev w SG_IO) False v d lba len = Some (0, [])"
proof -
  have "rq_errors (execute_and_wait dev (verify_request env v d lba len)) = 0"
    using assms(2)
    by (auto simp: execute_and_wait_def sg_kern_complete_rq_def blk_put_request_def
        scsi_io_completion_def Let_def verify_request_fields split: completion.split)
  then show ?thesis
    using verify_result_eq [OF refl, of env dev v d lba len]
    by (simp add: scsi_verify_outcome [OF assms(1)] outcome_good host_byte_def driver_byte_def)
qed

subsection \<open>A medium error with fixed-format sense data\<close>

text \<open>
  The command ended in CHECK CONDITION (with or without the driver byte that says that sense
  data is present), and the adapter filled in at least the 18 bytes of fixed-format sense data.
\<close>

definition fixed_sense :: "scsi_cmnd \<Rightarrow> bool" where
  "fixed_sense cmd \<longleftrightarrow> (sc_result cmd = 0x2 \<or> sc_result cmd = 0x08000002) \<and>
     18 \<le> length (sc_sense cmd) \<and> length (sc_sense cmd) \<le> 96 \<and>
     (sc_sense cmd ! 0 AND 0x7f = 0x70 \<or> sc_sense cmd ! 0 AND 0x7f = 0x71) \<and>
     10 \<le> unat (sc_sense cmd ! 7)"

lemma fixed_sense_buffer:
  assumes "fixed_sense cmd" and "i < 18"
  shows "sense_buffer cmd ! i = sc_sense cmd ! i"
  using assms by (simp add: fixed_sense_def sense_buffer_def nth_append)

lemma fixed_code_bits:
  assumes "b AND 0x7f = 0x70 \<or> b AND 0x7f = (0x71 :: u8)"
  shows "0x70 AND b = 0x70"
proof -
  have "0x70 AND b = (b AND 0x7f) AND 0x70" by (simp only: response_mask)
  with assms show ?thesis by auto
qed

lemma fixed_normalize:
  assumes "fixed_sense cmd"
  shows "\<exists>r h. scsi_normalize_sense (sense_buffer cmd) 96 = Some (r, h) \<and> r \<noteq> 0"
proof -
  have b: "sense_buffer cmd ! 0 = sc_sense cmd ! 0" "sense_buffer cmd ! 7 = sc_sense cmd ! 7"
    by (simp_all add: fixed_sense_buffer [OF assms])
  have "sg_scsi_normalize_sense (Some (sense_buffer cmd)) 96 = Some (1, sense_spec (sense_buffer cmd))"
  proof (rule normalize_sense_complete)
    show "6 \<le> uint (sense_buffer cmd ! 7)"
      using assms le_uint_of_le_unat [of 10 "sc_sense cmd ! 7"] unfolding b(2) fixed_sense_def by linarith
    show "0x70 = 0x70 AND sense_buffer cmd ! 0"
      using assms unfolding b(1) by (simp add: fixed_sense_def fixed_code_bits)
  qed simp_all
  with parsers_agree [of 96 "sense_buffer cmd"] show ?thesis
    by (auto simp: split: if_splits)
qed

lemma fixed_completion:
  assumes "fixed_sense cmd" and "len = min (8 + unat (sc_sense cmd ! 7)) 96"
  shows "rq_sense (scsi_io_completion cmd rq) = take len (sense_buffer cmd) @ drop len (rq_sense rq)"
    and "rq_sense_len (scsi_io_completion cmd rq) = len"
    and "rq_errors (scsi_io_completion cmd rq) = sc_result cmd"
proof -
  obtain r h where "scsi_normalize_sense (sense_buffer cmd) 96 = Some (r, h)" "r \<noteq> 0"
    using fixed_normalize [OF assms(1)] by blast
  moreover have "sc_result cmd \<noteq> 0" using assms(1) by (auto simp: fixed_sense_def)
  moreover have "sense_buffer cmd ! 7 = sc_sense cmd ! 7" by (simp add: fixed_sense_buffer [OF assms(1)])
  ultimately show "rq_sense (scsi_io_completion cmd rq) = take len (sense_buffer cmd) @ drop len (rq_sense rq)"
    "rq_sense_len (scsi_io_completion cmd rq) = len"
    "rq_errors (scsi_io_completion cmd rq) = sc_result cmd"
    by (simp_all add: scsi_io_completion_def Let_def assms(2))
qed

text \<open>What the scrubber finds in its own 32-byte buffer.\<close>

lemma fixed_result:
  assumes fixed: "fixed_sense cmd" and env: "good_env env"
    and dev: "dev (verify_request env v d lba len) = Completed cmd"
  obtains buf where "h_sbp (verify_result env dev v d lba len) = Some buf" "length buf = 32"
    "18 \<le> unat (h_sb_len_wr (verify_result env dev v d lba len))"
    "unat (h_sb_len_wr (verify_result env dev v d lba len)) \<le> 32"
    "take 18 buf = take 18 (sc_sense cmd)"
proof -
  define n where "n = min (8 + unat (sc_sense cmd ! 7)) 96"
  let ?rq = "execute_and_wait dev (verify_request env v d lba len)"
  let ?h = "verify_result env dev v d lba len"
  have n: "18 \<le> n" "n \<le> 96" using fixed by (auto simp: n_def fixed_sense_def)
  have rq: "rq_sense ?rq = take n (sense_buffer cmd) @ replicate (96 - n) 0" "rq_sense_len ?rq = n"
    using fixed_completion [OF fixed n_def]
    by (simp_all add: execute_and_wait_def dev sg_kern_complete_rq_def blk_put_request_def
        verify_request_fields)
  define buf where "buf = take (min 32 n) (rq_sense ?rq) @ replicate (32 - min 32 n) 0"
  have h: "h_sbp ?h = Some buf" "h_sb_len_wr ?h = of_nat (min 32 n)"
    using n env
    by (simp_all add: verify_result_def copy_sense_def fill_status_def verify_hdr_def zero_hdr_def
        Let_def rq(2) buf_def good_env_def)
  have wr: "unat (h_sb_len_wr ?h) = min 32 n"
    unfolding h(2) by (simp add: unsigned_of_nat take_bit_nat_eq_self)
  have "take 18 buf = take 18 (sense_buffer cmd)"
    using n by (simp add: buf_def rq(1) min_def)
  also have "\<dots> = take 18 (sc_sense cmd)"
    using fixed by (simp add: sense_buffer_def fixed_sense_def)
  finally show ?thesis
    using that [OF h(1)] n wr by (simp add: buf_def rq(1))
qed

text \<open>
  The outcome by the sense key of the fixed-format sense data: the return value of
  \<open>scsi_verify\<close> and what it reports.
\<close>

definition fixed_outcome :: "u8 list \<Rightarrow> u64 \<Rightarrow> int \<times> verify_msg list" where
  "fixed_outcome b lba =
     (let key = 0xf AND b ! 2 in
      if key = 0 \<or> key = 1 then (0, [])
      else if key = 2 then (2, [Not_ready])
      else if key = 3 \<or> key = 4 \<or> key = 8 then
        (if b ! 0 AND 0x80 \<noteq> 0 then (18, [Medium_error_at (of_nat (be_val (take 4 (drop 3 b))))])
         else (3, [Medium_error lba]))
      else if key = 5 then
        (if b ! 12 = 0x20 \<and> b ! 13 = 0 then (9, [Not_supported]) else (5, [Bad_field lba]))
      else if key = 6 then (6, [Unit_attention])
      else if key = 0xb then (11, [Aborted_command])
      else (99, [Failed_near lba]))"

lemma take18_nth:
  assumes "take 18 buf = take 18 b" and "i < 18"
  shows "buf ! i = b ! i"
  using assms by (metis nth_take)

lemma take18_info:
  assumes "take 18 buf = take 18 b"
  shows "take 4 (drop 3 buf) = take 4 (drop 3 b)"
proof -
  have "take 4 (drop 3 (take 18 buf)) = take 4 (drop 3 (take 18 b))" using assms by (rule arg_cong)
  then show ?thesis by (simp add: drop_take min_def)
qed

lemma outcome_sense:
  assumes cat: "get_scsi_pt_result_category \<lparr>pt_hdr = h, pt_in_err = 0, pt_os_err = 0\<rparr> = RESULT_SENSE"
    and buf: "h_sbp h = Some buf"
    and c: "sg_err_category_sense (Some buf) (uint (h_sb_len_wr h)) = Some c"
    and i: "sg_get_sense_info_fld buf (uint (h_sb_len_wr h)) = Some (valid, ull)"
  shows "verify_outcome h lba = Some
    (if c = 2 \<or> c = 9 \<or> c = 5 \<or> c = 6 \<or> c = 11 then (c, verify_report c lba 0)
     else if c = 21 \<or> c = 20 then (0, [])
     else if c = 3 then (if valid \<noteq> 0 then (18, [Medium_error_at (ucast ull)]) else (3, [Medium_error lba]))
     else (99, [Failed_near lba]))"
  by (simp add: verify_outcome_def sg_cmds_process_resp_def cat buf c i verify10_ret_def
      verify_report_def)

lemma check_condition:
  assumes "fixed_sense cmd" and "dev (verify_request env v d lba len) = Completed cmd"
  shows "get_scsi_pt_result_category
    \<lparr>pt_hdr = verify_result env dev v d lba len, pt_in_err = 0, pt_os_err = 0\<rparr> = RESULT_SENSE"
proof -
  have e: "rq_errors (execute_and_wait dev (verify_request env v d lba len)) = sc_result cmd"
    using fixed_completion(3) [OF assms(1) refl]
    by (simp add: execute_and_wait_def assms(2) sg_kern_complete_rq_def blk_put_request_def)
  show ?thesis
    using assms(1) verify_result_eq [OF refl, of env dev v d lba len]
    by (auto simp: get_scsi_pt_result_category_def e fixed_sense_def host_byte_def driver_byte_def)
qed

lemma ucast_u64_u32_of_nat: "(ucast (of_nat n :: u64) :: u32) = of_nat n"
  by (rule word_unat_eq_iff [THEN iffD2])
    (simp add: unsigned_ucast_eq unsigned_of_nat)

lemma scsi_verify_fixed:
  assumes env: "good_env env" and fixed: "fixed_sense cmd"
    and dev: "dev (verify_request env v d lba len) = Completed cmd"
  shows "scsi_verify (scsi_kern_ioctl env dev w SG_IO) False v d lba len =
           Some (fixed_outcome (sc_sense cmd) lba)"
proof -
  let ?h = "verify_result env dev v d lba len"
  let ?n = "uint (h_sb_len_wr ?h)"
  obtain buf where buf: "h_sbp ?h = Some buf" "length buf = 32" "18 \<le> unat (h_sb_len_wr ?h)"
      "unat (h_sb_len_wr ?h) \<le> 32" "take 18 buf = take 18 (sc_sense cmd)"
    using fixed_result [where dev = dev, OF fixed env dev] by blast
  have n: "18 \<le> ?n" "?n \<le> int (length buf)"
    using le_uint_of_le_unat [OF buf(3)] uint_le_of_unat_le [OF buf(4)] buf(2) by simp_all
  note nth = take18_nth [OF buf(5)]
  have rc: "buf ! 0 AND 0x7f = 0x70 \<or> buf ! 0 AND 0x7f = 0x71" "6 \<le> uint (buf ! 7)"
    using fixed le_uint_of_le_unat [of 10 "sc_sense cmd ! 7"] nth [of 0] nth [of 7]
    by (simp_all add: fixed_sense_def)
  have c: "sg_err_category_sense (Some buf) ?n = Some (category_of_key (sense_spec buf))"
    using err_category_complete [of ?n buf] n rc fixed_code_bits [OF rc(1)] by simp
  have i: "sg_get_sense_info_fld buf ?n =
      Some (if buf ! 0 AND 0x80 \<noteq> 0 then 1 else 0, of_nat (be_val (take 4 (drop 3 buf))))"
    using sense_info_fixed [of ?n buf] n rc by simp
  have "\<not> 0x72 \<le> 0x7f AND buf ! 0"
    using rc(1) by (auto simp: and.commute [of "0x7f"])
  then have spec: "sense_key (sense_spec buf) = 0xf AND sc_sense cmd ! 2"
      "asc (sense_spec buf) = sc_sense cmd ! 12" "ascq (sense_spec buf) = sc_sense cmd ! 13"
    by (simp_all add: sense_spec_def Let_def nth)
  show ?thesis
    unfolding scsi_verify_outcome [OF env] outcome_sense [OF check_condition [where dev = dev, OF fixed dev] buf(1) c i]
      take18_info [OF buf(5)] nth [of 0, simplified]
    by (simp add: fixed_outcome_def category_of_key_def spec verify_report_def Let_def
        ucast_u64_u32_of_nat)
qed

section \<open>Properties\<close>

text \<open>
  C10: A verification of \<open>n\<close> sectors at \<open>lba\<close> asks the device for sector \<open>lba mod 2^32\<close> and
  \<open>512 * (n mod 65536)\<close> bytes, and its outcome depends on the device by the answer to this
  one request only: the command block written by \<open>sg_ll_verify10\<close> and read back by
  \<open>sg_kern_io\<close> carries 32 bits of the address and 16 bits of the length.
\<close>

theorem verify_asks_for:
  assumes "good_env env" and "rq = verify_request env v d lba n"
  shows "unat (rq_sector rq) = unat lba mod 2 ^ 32 \<and> unat (rq_data_len rq) = 512 * (unat n mod 65536) \<and>
    scsi_verify (scsi_kern_ioctl env dev False SG_IO) False v d lba n =
      scsi_verify (scsi_kern_ioctl env (\<lambda>_. dev rq) False SG_IO) False v d lba n"
proof (intro conjI)
  show "unat (rq_sector rq) = unat lba mod 2 ^ 32" "unat (rq_data_len rq) = 512 * (unat n mod 65536)"
    using verify_request_sector verify_request_len by (simp_all add: assms(2))
  show "scsi_verify (scsi_kern_ioctl env dev False SG_IO) False v d lba n =
      scsi_verify (scsi_kern_ioctl env (\<lambda>_. dev rq) False SG_IO) False v d lba n"
    unfolding scsi_verify_outcome [OF assms(1)] verify_result_def execute_and_wait_def assms(2) by simp
qed

theorem verify_asks_for_witness:
  "unat (rq_sector (verify_request sample_env 0 1 0x100000005 8)) = 5 \<and>
   unat (rq_data_len (verify_request sample_env 0 1 0x100000005 8)) = 4096"
  using verify_asks_for [OF good_sample_env refl, of 0 1 "0x100000005" 8] by simp

text \<open>
  C12: A verification that the device completes without an error, or whose wait a signal
  interrupts, is reported as successful, and nothing is printed.
\<close>

theorem verify_success:
  assumes "good_env env"
    and "\<And>cmd. dev (verify_request env v d lba n) = Completed cmd \<Longrightarrow> sc_result cmd = 0"
  shows "scsi_verify (scsi_kern_ioctl env dev False SG_IO) False v d lba n = Some (0, [])"
  by (rule scsi_verify_no_error [OF assms])

theorem verify_success_witness:
  "scsi_verify (scsi_kern_ioctl sample_env (\<lambda>_. Interrupted) False SG_IO) False 0 1 7 8 = Some (0, [])"
  using verify_success [OF good_sample_env, of "\<lambda>_. Interrupted" 0 1 7 8] by simp

text \<open>
  C11: For a check condition with fixed-format sense data, \<open>scsi_verify\<close> returns and reports
  what the sense key says: in particular, a medium error whose information field is valid
  is reported at the sector that the four bytes of that field spell.
\<close>

theorem verify_check_condition:
  assumes "good_env env" and "fixed_sense cmd"
    and "dev (verify_request env v d lba n) = Completed cmd"
  shows "scsi_verify (scsi_kern_ioctl env dev False SG_IO) False v d lba n =
           Some (fixed_outcome (sc_sense cmd) lba)"
  by (rule scsi_verify_fixed [where dev = dev, OF assms])

theorem verify_check_condition_witness:
  "scsi_verify (scsi_kern_ioctl sample_env (\<lambda>_. Completed \<lparr>sc_result = 0x08000002,
       sc_sense = [0xf0, 0, 3, 0, 0, 1, 2, 10, 0, 0, 0, 0, 0x11, 0, 0, 0, 0, 0], sc_resid = 0\<rparr>) False SG_IO)
     False 0 1 256 8 = Some (18, [Medium_error_at 258])"
proof -
  let ?cmd = "\<lparr>sc_result = 0x08000002,
       sc_sense = [0xf0, 0, 3, 0, 0, 1, 2, 10, 0, 0, 0, 0, 0x11, 0, 0, 0, 0, 0], sc_resid = 0\<rparr>"
  have "fixed_sense ?cmd" by (simp add: fixed_sense_def)
  moreover have "fixed_outcome (sc_sense ?cmd) 256 = (18, [Medium_error_at 258])"
    by (simp add: fixed_outcome_def be_val_def)
  ultimately show ?thesis
    using verify_check_condition [OF good_sample_env, of ?cmd "\<lambda>_. Completed ?cmd" 0 1 256 8] by simp
qed


text \<open>A device whose answer leads there: the descriptor at byte 26 needs 12 bytes.\<close>

definition long_sense :: scsi_cmnd where
  "long_sense = \<lparr>sc_result = 0x08000002,
     sc_sense = [0x72, 3, 0x11, 0, 0, 0, 0, 30,
       0x80, 16, 0, 0, 0, 0, 0, 0, 0, 0, 0, 0, 0, 0, 0, 0, 0, 0,
       0, 10, 0x80, 0, 0, 0, 0, 0, 0, 0, 1, 2],
     sc_resid = 0\<rparr>"

lemma long_sense_faults:
  "scsi_verify (scsi_kern_ioctl sample_env (\<lambda>_. Completed long_sense) False SG_IO) False 0 1 0 8 = None"
  by code_simp


end
