(* ===== verification/Scrub_Types.thy ===== *)
theory Scrub_Types
  imports Scrub_Prelude
begin

text \<open>
  The data of the scrubber: \<open>struct disk_scrubber\<close> (\<^verbatim>\<open>include/linux/scrub.h\<close>),
  \<open>struct scrubparams\<close> and \<open>struct scrub_thread_data\<close> (\<^verbatim>\<open>block/scrub_core.c\<close>), and the
  time stamps. A pointer to the disk or to the parameters is not stored: the operations
  get the object it points to from the state they run on. Mutexes are not fields: an
  operation that a mutex protects is one step of the model.
\<close>

section \<open>Time stamps\<close>

record timespec =
  ts_sec :: int
  ts_nsec :: int

record timeval =
  tv_sec :: int
  tv_usec :: int

definition islater :: "timespec \<Rightarrow> timespec \<Rightarrow> int" where
  "islater b c =
     (if ts_sec b > ts_sec c then 1
      else if ts_sec b = ts_sec c then (if ts_nsec b > ts_nsec c then 1 else 0)
      else 0)"

text \<open>The elapsed microseconds between two readings, a \<open>long\<close> converted to \<open>uint64_t\<close>.\<close>

definition usecs_between :: "timeval \<Rightarrow> timeval \<Rightarrow> int" where
  "usecs_between a b = (tv_sec b - tv_sec a) * 1000000 + (tv_usec b - tv_usec a)"

section \<open>The scrubber of a disk\<close>

record disk_scrubber =
  ds_disk_name :: string
  ds_reqbound :: u64
  ds_strategy :: string
  ds_priority :: string
  ds_segsize :: u64
  ds_regsize :: u64
  ds_state :: int
  ds_threads :: int
  ds_dpo :: int
  ds_vrprotect :: int
  ds_verbose :: int
  ds_timed :: int
  ds_ttime_ms :: u64
  ds_resptime_us :: u64
  ds_reqcount :: u64
  ds_spoint :: u64
  ds_scount :: u64
  ds_idle :: timespec
  ds_delayms :: u64

abbreviation (input) SCRUB_STRAT_NAME_MAX :: nat where "SCRUB_STRAT_NAME_MAX \<equiv> 10"
abbreviation (input) SCRUB_PRIO_NAME_MAX :: nat where "SCRUB_PRIO_NAME_MAX \<equiv> 10"

abbreviation (input) STATE_ON :: int where "STATE_ON \<equiv> 0"
abbreviation (input) STATE_OFF :: int where "STATE_OFF \<equiv> 1"
abbreviation (input) STATE_ABORT :: int where "STATE_ABORT \<equiv> 2"

text \<open>
  The names in the order of the arrays \<open>strategies\<close> and \<open>priorities\<close> of
  \<^verbatim>\<open>block/scrub.c\<close>.
\<close>

definition strategies :: "string list" where
  "strategies = [''seql'', ''stag'', ''fixed'']"

definition priorities :: "string list" where
  "priorities = [''realtime'', ''idlechk'']"

text \<open>The default parameters that \<open>blk_init_scrub\<close> sets in the zeroed structure.\<close>

definition default_scrubber :: "string \<Rightarrow> disk_scrubber" where
  "default_scrubber name = \<lparr>ds_disk_name = name, ds_reqbound = 0, ds_strategy = ''seql'',
     ds_priority = ''idlechk'', ds_segsize = 2048, ds_regsize = 131072, ds_state = STATE_OFF,
     ds_threads = 1, ds_dpo = 1, ds_vrprotect = 0, ds_verbose = 1, ds_timed = 0, ds_ttime_ms = 0,
     ds_resptime_us = 0, ds_reqcount = 0, ds_spoint = 0, ds_scount = 0,
     ds_idle = \<lparr>ts_sec = 0, ts_nsec = 0\<rparr>, ds_delayms = 0\<rparr>"

section \<open>The parameters of a round\<close>

abbreviation (input) SEQLSCRUB :: int where "SEQLSCRUB \<equiv> 1"
abbreviation (input) STAGSCRUB :: int where "STAGSCRUB \<equiv> 2"
abbreviation (input) FIXEDSCRUB :: int where "FIXEDSCRUB \<equiv> 3"
abbreviation (input) RTIMEPRIO :: int where "RTIMEPRIO \<equiv> 1"
abbreviation (input) IDCHKPRIO :: int where "IDCHKPRIO \<equiv> 2"

record scrubparams =
  sp_reqbound :: u64
  sp_strategy :: int
  sp_priority :: int
  sp_segsize :: u64
  sp_regsize :: u64
  sp_threads :: int
  sp_dpo :: int
  sp_vrprotect :: int
  sp_verbose :: int
  sp_timed :: int
  sp_ttime_ms :: u64
  sp_available :: int
  sp_read_errs :: int
  sp_capacity :: u64
  sp_start :: u64
  sp_idlestamp :: timespec
  sp_delayms :: u64
  sp_resptime_us :: u64
  sp_reqcount :: u64

text \<open>\<open>kmalloc_node\<close> with \<open>__GFP_ZERO\<close>.\<close>

definition zero_params :: scrubparams where
  "zero_params = \<lparr>sp_reqbound = 0, sp_strategy = 0, sp_priority = 0, sp_segsize = 0, sp_regsize = 0,
     sp_threads = 0, sp_dpo = 0, sp_vrprotect = 0, sp_verbose = 0, sp_timed = 0, sp_ttime_ms = 0,
     sp_available = 0, sp_read_errs = 0, sp_capacity = 0, sp_start = 0,
     sp_idlestamp = \<lparr>ts_sec = 0, ts_nsec = 0\<rparr>, sp_delayms = 0, sp_resptime_us = 0, sp_reqcount = 0\<rparr>"

section \<open>The threads\<close>

datatype thread_state = TINIT | TIDLE | TBUSY

record scrub_thread_data =
  td_pos :: u64
  td_count :: u64
  td_state :: thread_state
  td_tid :: nat

section \<open>The order of time stamps\<close>

lemma islater_iff:
  "islater b c = 1 \<longleftrightarrow> ts_sec b > ts_sec c \<or> (ts_sec b = ts_sec c \<and> ts_nsec b > ts_nsec c)"
  by (simp add: islater_def)

lemma islater_trans: "islater a b = 1 \<Longrightarrow> islater b c = 1 \<Longrightarrow> islater a c = 1"
  unfolding islater_iff by auto

lemma islater_total: "a \<noteq> b \<Longrightarrow> islater a b = 1 \<or> islater b a = 1"
  for a b :: timespec
  unfolding islater_iff by (cases a; cases b) (auto simp: not_less)

end
