(* ===== verification/Scrub_Worker.thy ===== *)
theory Scrub_Worker
  imports Scrub_Types "HOL-Library.Monad_Syntax"
begin

text \<open>
  The scrubbing threads of \<^verbatim>\<open>block/scrub_core.c\<close>: \<open>kthread_segread\<close>, which splits a
  segment into VERIFY commands of at most 65535 sectors, and \<open>segread\<close>, which hands a
  segment to an idle thread.

  The world is the state that the scrubber task and its threads share. This theory runs
  them one after the other: \<open>segread\<close> gives the processor away when it waits for the thread
  it has woken up, and gets it back when that thread goes to sleep at its barrier. (Theory
  \<open>Scrub_Handoff\<close> has every interleaving.) A result \<open>None\<close> means that the code does
  not return: a fault, or a loop that waits for something that never happens.
\<close>

section \<open>The world\<close>

record scrub_world =
  w_sc :: disk_scrubber
  w_capacity :: u64
  w_s :: scrubparams
  w_tdata :: "scrub_thread_data list"
  w_barrier :: "bool list"
  w_cmds :: "(u64 \<times> u32) list"
  w_ticks :: nat

text \<open>
  \<open>w_barrier\<close> has one flag per thread, true while the spin lock is held; \<open>w_cmds\<close> are the
  commands given to \<open>scsi_verify\<close> so far, \<open>w_ticks\<close> the number of clock readings.

  The environment: the outcome of the \<open>n\<close>-th verification, the \<open>n\<close>-th reading of the
  clock (\<open>do_gettimeofday\<close>, \<open>current_kernel_time\<close>), and what writes to sysfs made of the scrubber while the \<open>n\<close>-th command ran.
\<close>

record scrub_env =
  e_verify :: "nat \<Rightarrow> disk_scrubber \<Rightarrow> u64 \<Rightarrow> u32 \<Rightarrow> int option"
  e_clock :: "nat \<Rightarrow> timeval"
  e_kernel_time :: "nat \<Rightarrow> timespec"
  e_sysfs :: "nat \<Rightarrow> disk_scrubber \<Rightarrow> disk_scrubber"

section \<open>The thread\<close>

definition add_resptime :: "scrub_env \<Rightarrow> scrub_world \<Rightarrow> scrub_world" where
  "add_resptime E w =
     (if sp_timed (w_s w) \<noteq> 0
      then w\<lparr>w_ticks := w_ticks w + 2,
             w_s := (w_s w)\<lparr>sp_resptime_us := sp_resptime_us (w_s w)
               + of_int (usecs_between (e_clock E (w_ticks w)) (e_clock E (w_ticks w + 1)))\<rparr>\<rparr>
      else w)"

definition count_request :: "int \<Rightarrow> scrub_world \<Rightarrow> scrub_world" where
  "count_request res w =
     w\<lparr>w_s := (w_s w)\<lparr>sp_read_errs := sp_read_errs (w_s w) + (if res \<noteq> 0 then 1 else 0),
                      sp_reqcount := sp_reqcount (w_s w) + 1\<rparr>,
       w_sc := (w_sc w)\<lparr>ds_reqcount := ds_reqcount (w_sc w) + 1\<rparr>\<rparr>"

definition verify_chunk :: "scrub_env \<Rightarrow> u64 \<Rightarrow> u32 \<Rightarrow> scrub_world \<Rightarrow> scrub_world option" where
  "verify_chunk E pos num w = do {
     let n = length (w_cmds w);
     res \<leftarrow> e_verify E n (w_sc w) pos num;
     let w1 = w\<lparr>w_cmds := w_cmds w @ [(pos, num)], w_sc := e_sysfs E n (w_sc w)\<rparr>;
     Some (count_request res (add_resptime E w1)) }"

definition chunk_len :: "u64 \<Rightarrow> u32" where
  "chunk_len count = (if count > 65535 then 65535 else ucast count)"

lemma unat_65535 [simp]: "unat (65535 :: u64) = 65535" "unat (65535 :: u32) = 65535"
  by simp_all

lemma chunk_rest:
  assumes "\<not> count \<le> (65535 :: u64)"
  shows "unat (count - 65535) = unat count - 65535" and "65535 < unat count"
proof -
  show *: "65535 < unat count" using assms by (simp add: not_le word_less_nat_alt)
  then have "65535 \<le> count" by (simp add: word_le_nat_alt)
  then show "unat (count - 65535) = unat count - 65535" using unat_sub_le by fastforce
qed

lemma chunk_rest_less: "\<not> count \<le> (65535 :: u64) \<Longrightarrow> unat (count - 65535) < unat count"
  using chunk_rest [of count] by linarith

function verify_loop :: "scrub_env \<Rightarrow> u64 \<Rightarrow> u64 \<Rightarrow> scrub_world \<Rightarrow> scrub_world option" where
  "verify_loop E pos count w = do {
     w' \<leftarrow> verify_chunk E pos (chunk_len count) w;
     if count \<le> 65535 then Some w'
     else verify_loop E (pos + 65535) (count - 65535) w' }"
  by pat_completeness auto
termination
  by (relation "measure (\<lambda>(_, _, count, _). unat count)") (simp_all add: chunk_rest_less)

declare verify_loop.simps [simp del]

definition td_set_state :: "nat \<Rightarrow> thread_state \<Rightarrow> scrub_world \<Rightarrow> scrub_world" where
  "td_set_state tid st w = w\<lparr>w_tdata := (w_tdata w)[tid := (w_tdata w ! tid)\<lparr>td_state := st\<rparr>]\<rparr>"

definition add_available :: "int \<Rightarrow> scrub_world \<Rightarrow> scrub_world" where
  "add_available d w = w\<lparr>w_s := (w_s w)\<lparr>sp_available := sp_available (w_s w) + d\<rparr>\<rparr>"

text \<open>The \<open>switch\<close> on the state, once the thread is past its barrier.\<close>

definition thread_action :: "scrub_env \<Rightarrow> nat \<Rightarrow> scrub_world \<Rightarrow> scrub_world option" where
  "thread_action E tid w = do {
     d \<leftarrow> fetch (w_tdata w) tid;
     case td_state d of
       TBUSY \<Rightarrow> do {
         w1 \<leftarrow> verify_loop E (td_pos d) (td_count d) w;
         Some (add_available 1 (td_set_state tid TIDLE w1)) }
     | TIDLE \<Rightarrow> Some w
     | TINIT \<Rightarrow> Some w }"

text \<open>
  The event loop until the thread exits (true) or sleeps at its barrier (false).
  \<open>spin_trylock\<close> takes the lock when it is free, also when the thread is to stop.
\<close>

partial_function (option) thread_loop ::
    "scrub_env \<Rightarrow> bool \<Rightarrow> nat \<Rightarrow> scrub_world \<Rightarrow> (bool \<times> scrub_world) option" where
  "thread_loop E stop tid w = do {
     locked \<leftarrow> fetch (w_barrier w) tid;
     let w1 = w\<lparr>w_barrier := (w_barrier w)[tid := True]\<rparr>;
     if locked \<and> \<not> stop then Some (False, w)
     else if stop then Some (True, w1)
     else Option.bind (thread_action E tid w1) (thread_loop E stop tid) }"

definition thread_start :: "nat \<Rightarrow> scrub_world \<Rightarrow> scrub_world" where
  "thread_start tid w = add_available 1 (td_set_state tid TIDLE w)"

definition kthread_segread ::
    "scrub_env \<Rightarrow> bool \<Rightarrow> nat \<Rightarrow> scrub_world \<Rightarrow> (bool \<times> scrub_world) option" where
  "kthread_segread E stop tid w = thread_loop E stop tid (thread_start tid w)"

section \<open>Handing a segment over\<close>

text \<open>\<open>while (tdata[t].state != TIDLE) t = (t + 1) % threads\<close>\<close>

partial_function (option) find_idle :: "scrub_thread_data list \<Rightarrow> nat \<Rightarrow> nat \<Rightarrow> nat option" where
  "find_idle tdata threads t = do {
     d \<leftarrow> fetch tdata t;
     if td_state d = TIDLE then Some t
     else if threads = 0 then None
     else find_idle tdata threads ((t + 1) mod threads) }"

definition hand_over :: "nat \<Rightarrow> u64 \<Rightarrow> u64 \<Rightarrow> scrub_world \<Rightarrow> scrub_world" where
  "hand_over t pos count w =
     w\<lparr>w_tdata := (w_tdata w)[t := (w_tdata w ! t)\<lparr>td_state := TBUSY, td_pos := pos, td_count := count\<rparr>],
       w_barrier := (w_barrier w)[t := False]\<rparr>"

definition segread :: "scrub_env \<Rightarrow> u64 \<Rightarrow> u64 \<Rightarrow> scrub_world \<Rightarrow> (int \<times> scrub_world) option" where
  "segread E pos count w =
     (if (sp_priority (w_s w) = RTIMEPRIO \<or> sp_priority (w_s w) = IDCHKPRIO) \<and> sp_available (w_s w) = 0
      then None
      else do {
        let w1 = add_available (-1) w;
        t \<leftarrow> find_idle (w_tdata w1) (nat (sp_threads (w_s w1))) 0;
        (_, w2) \<leftarrow> thread_loop E False t (hand_over t pos count w1);
        Some (0, w2) })"

section \<open>The commands of a segment\<close>

text \<open>The commands that the loop sends for \<open>count\<close> sectors at \<open>pos\<close>.\<close>

function chunks :: "u64 \<Rightarrow> u64 \<Rightarrow> (u64 \<times> u32) list" where
  "chunks pos count = (pos, chunk_len count) #
     (if count \<le> 65535 then [] else chunks (pos + 65535) (count - 65535))"
  by pat_completeness auto
termination
  by (relation "measure (\<lambda>(_, count). unat count)") (simp_all add: chunk_rest_less)

declare chunks.simps [simp del]

definition cmd_sectors :: "u64 \<times> u32 \<Rightarrow> nat list" where
  "cmd_sectors c = [unat (fst c) ..< unat (fst c) + unat (snd c)]"

definition cmds_sectors :: "(u64 \<times> u32) list \<Rightarrow> nat list" where
  "cmds_sectors cs = concat (map cmd_sectors cs)"

lemma cmds_sectors_simps [simp]:
  "cmds_sectors [] = []"
  "cmds_sectors (c # cs) = cmd_sectors c @ cmds_sectors cs"
  "cmds_sectors (cs @ ds) = cmds_sectors cs @ cmds_sectors ds"
  by (simp_all add: cmds_sectors_def)

lemma unat_chunk_len: "unat (chunk_len count) = min (unat count) 65535"
proof (cases "count > 65535")
  case True
  then show ?thesis by (simp add: chunk_len_def word_less_nat_alt)
next
  case False
  then have "unat count \<le> 65535" by (simp add: not_less word_le_nat_alt)
  then have "unat (ucast count :: u32) = unat count"
    by (simp add: unsigned_ucast_eq take_bit_nat_eq_self)
  with False \<open>unat count \<le> 65535\<close> show ?thesis by (simp add: chunk_len_def)
qed

lemma chunks_sectors:
  "unat pos + unat count \<le> 2 ^ 64 \<Longrightarrow>
     cmds_sectors (chunks pos count) = [unat pos ..< unat pos + unat count]"
proof (induction pos count rule: chunks.induct)
  case (1 pos count)
  show ?case
  proof (cases "count \<le> 65535")
    case True
    then show ?thesis
      by (subst chunks.simps) (simp add: cmd_sectors_def unat_chunk_len word_le_nat_alt)
  next
    case False
    note rest = chunk_rest [OF False]
    have pos: "unat (pos + 65535) = unat pos + 65535"
      using unat_add_nowrap [of pos "65535 :: u64"] "1.prems" rest(2) by simp
    have "cmds_sectors (chunks (pos + 65535) (count - 65535)) = [unat pos + 65535 ..< unat pos + unat count]"
      using "1.IH" [OF False] "1.prems" rest pos by simp
    then show ?thesis
      using False rest(2) upt_add_eq_append [of "unat pos" "unat pos + 65535" "unat count - 65535"]
      by (subst chunks.simps) (simp add: cmd_sectors_def unat_chunk_len)
  qed
qed

lemma chunks_bounded: "(p, n) \<in> set (chunks pos count) \<Longrightarrow> unat n \<le> 65535"
proof (induction pos count rule: chunks.induct)
  case (1 pos count)
  then show ?case
    by (subst (asm) (2) chunks.simps) (auto simp: unat_chunk_len split: if_splits)
qed

lemma length_chunks: "length (chunks pos count) = max 1 ((unat count + 65534) div 65535)"
proof (induction pos count rule: chunks.induct)
  case (1 pos count)
  show ?case
  proof (cases "count \<le> 65535")
    case True
    then have "(unat count + 65534) div 65535 \<le> 1" by (simp add: word_le_nat_alt)
    with True show ?thesis by (subst chunks.simps) simp
  next
    case False
    note rest = chunk_rest [OF False]
    have "(unat count + 65534) div 65535 = Suc ((unat count - 65535 + 65534) div 65535)"
      using rest(2) by (simp add: div_if)
    moreover have "1 \<le> (unat count - 65535 + 65534) div 65535" using rest(2) by (simp add: le_div_geq)
    ultimately show ?thesis using "1.IH" [OF False] False rest(1)
      by (subst chunks.simps) simp
  qed
qed

section \<open>A thread serves its segment\<close>

text \<open>What a thread never writes: the parameters of the round, the thread data, the barriers.\<close>

definition round_config :: "scrub_world \<Rightarrow> u64 \<times> scrubparams" where
  "round_config w = (w_capacity w,
     (w_s w)\<lparr>sp_available := 0, sp_read_errs := 0, sp_resptime_us := 0, sp_reqcount := 0\<rparr>)"

definition verify_total :: "scrub_env \<Rightarrow> bool" where
  "verify_total E \<longleftrightarrow> (\<forall>n sc pos num. e_verify E n sc pos num \<noteq> None)"

lemma verify_chunk_total:
  assumes "verify_total E"
  shows "\<exists>w'. verify_chunk E pos num w = Some w' \<and> w_cmds w' = w_cmds w @ [(pos, num)] \<and>
    round_config w' = round_config w \<and> w_tdata w' = w_tdata w \<and> w_barrier w' = w_barrier w \<and>
    sp_available (w_s w') = sp_available (w_s w) \<and> sp_reqcount (w_s w') = sp_reqcount (w_s w) + 1"
proof -
  obtain res where "e_verify E (length (w_cmds w)) (w_sc w) pos num = Some res"
    using assms unfolding verify_total_def by blast
  then show ?thesis
    by (simp add: verify_chunk_def count_request_def add_resptime_def round_config_def Let_def)
qed

lemma verify_loop_total:
  "verify_total E \<Longrightarrow>
   \<exists>w'. verify_loop E pos count w = Some w' \<and> w_cmds w' = w_cmds w @ chunks pos count \<and>
    round_config w' = round_config w \<and> w_tdata w' = w_tdata w \<and> w_barrier w' = w_barrier w \<and>
    sp_available (w_s w') = sp_available (w_s w) \<and>
    sp_reqcount (w_s w') = sp_reqcount (w_s w) + of_nat (length (chunks pos count))"
proof (induction E pos count w rule: verify_loop.induct)
  case (1 E pos count w)
  obtain w1 where w1: "verify_chunk E pos (chunk_len count) w = Some w1"
      "w_cmds w1 = w_cmds w @ [(pos, chunk_len count)]" "round_config w1 = round_config w"
      "w_tdata w1 = w_tdata w" "w_barrier w1 = w_barrier w"
      "sp_available (w_s w1) = sp_available (w_s w)" "sp_reqcount (w_s w1) = sp_reqcount (w_s w) + 1"
    using verify_chunk_total [OF "1.prems"] by metis
  show ?case
  proof (cases "count \<le> 65535")
    case True
    with w1 show ?thesis
      by (subst verify_loop.simps, subst (1 2) chunks.simps) simp
  next
    case False
    from "1.IH" [OF w1(1) False "1.prems"] False w1 show ?thesis
      by (subst verify_loop.simps, subst (1 2) chunks.simps) (auto simp: algebra_simps)
  qed
qed

text \<open>The request counter counts the commands: the difference to their number is constant.\<close>

definition requests_since :: "scrub_world \<Rightarrow> u64" where
  "requests_since w = sp_reqcount (w_s w) - of_nat (length (w_cmds w))"

lemma verify_loop_counts:
  assumes "verify_total E" and "verify_loop E pos count w = Some w'"
  shows "requests_since w' = requests_since w"
proof -
  obtain w1 where "verify_loop E pos count w = Some w1" "w_cmds w1 = w_cmds w @ chunks pos count"
      "sp_reqcount (w_s w1) = sp_reqcount (w_s w) + of_nat (length (chunks pos count))"
    using verify_loop_total [OF assms(1)] by metis
  with assms(2) show ?thesis by (simp add: requests_since_def)
qed

section \<open>A segment is handed to an idle thread\<close>

lemma find_idle_first:
  assumes "t < length tdata" and "td_state (tdata ! t) = TIDLE"
  shows "find_idle tdata n t = Some t"
  using assms by (subst find_idle.simps) simp

text \<open>The search ends as soon as one of the threads is idle, wherever it starts.\<close>

lemma find_idle_ends_aux:
  assumes "length tdata = n" and "s < n" and "td_state (tdata ! s) = TIDLE"
  shows "t < n \<Longrightarrow> \<exists>r. find_idle tdata n t = Some r \<and> r < n \<and> td_state (tdata ! r) = TIDLE"
proof (induction "(s + n - t) mod n" arbitrary: t rule: less_induct)
  case less
  show ?case
  proof (cases "td_state (tdata ! t) = TIDLE")
    case True
    with find_idle_first [of t tdata n] less.prems assms(1) show ?thesis by auto
  next
    case False
    let ?t = "(t + 1) mod n"
    from False assms(3) have "s \<noteq> t" by auto
    have "?t < n" using less.prems by simp
    moreover have "(s + n - ?t) mod n < (s + n - t) mod n"
    proof (cases "t + 1 = n")
      case True
      then show ?thesis using \<open>s \<noteq> t\<close> assms(2) by auto
    next
      case tn: False
      with less.prems have t1: "?t = t + 1" by simp
      show ?thesis
      proof (cases "s < t")
        case True
        then have "(s + n - t) mod n = s + n - t" "(s + n - (t + 1)) mod n = s + n - (t + 1)"
          using less.prems tn by simp_all
        then show ?thesis unfolding t1 using less.prems by linarith
      next
        case st: False
        then have "(s + n - t) mod n = s - t" "(s + n - (t + 1)) mod n = s - (t + 1)"
          using \<open>s \<noteq> t\<close> assms(2) mod_add_self2 [of "s - t" n] mod_add_self2 [of "s - (t + 1)" n]
          by (simp_all)
        then show ?thesis unfolding t1 using st \<open>s \<noteq> t\<close> by linarith
      qed
    qed
    ultimately obtain r where "find_idle tdata n ?t = Some r" "r < n" "td_state (tdata ! r) = TIDLE"
      using less.hyps [of ?t] by blast
    then show ?thesis
      using False less.prems assms(1) by (subst find_idle.simps) auto
  qed
qed

lemma find_idle_ends:
  assumes "length tdata = n" and "s < n" and "td_state (tdata ! s) = TIDLE" and "t < n"
  obtains r where "find_idle tdata n t = Some r" "r < n" "td_state (tdata ! r) = TIDLE"
  using find_idle_ends_aux [OF assms] by blast

text \<open>All threads sleep at their barriers.\<close>

definition idle_world :: "scrub_world \<Rightarrow> bool" where
  "idle_world w \<longleftrightarrow> 0 < sp_threads (w_s w) \<and> int (length (w_tdata w)) = sp_threads (w_s w) \<and>
     length (w_barrier w) = length (w_tdata w) \<and> sp_available (w_s w) = sp_threads (w_s w) \<and>
     (\<forall>d \<in> set (w_tdata w). td_state d = TIDLE) \<and> (\<forall>b \<in> set (w_barrier w). b)"

lemma thread_sleeps:
  "tid < length (w_barrier w) \<Longrightarrow> w_barrier w ! tid \<Longrightarrow> thread_loop E False tid w = Some (False, w)"
  by (subst thread_loop.simps) simp

lemma thread_action_busy:
  assumes "verify_total E" and "tid < length (w_tdata w)" and "td_state (w_tdata w ! tid) = TBUSY"
  shows "\<exists>w'. thread_action E tid w = Some w' \<and> round_config w' = round_config w \<and>
    w_cmds w' = w_cmds w @ chunks (td_pos (w_tdata w ! tid)) (td_count (w_tdata w ! tid)) \<and>
    w_barrier w' = w_barrier w \<and>
    w_tdata w' = (w_tdata w)[tid := (w_tdata w ! tid)\<lparr>td_state := TIDLE\<rparr>] \<and>
    sp_available (w_s w') = sp_available (w_s w) + 1 \<and> requests_since w' = requests_since w"
proof -
  obtain w1 where "verify_loop E (td_pos (w_tdata w ! tid)) (td_count (w_tdata w ! tid)) w = Some w1"
      "w_cmds w1 = w_cmds w @ chunks (td_pos (w_tdata w ! tid)) (td_count (w_tdata w ! tid))"
      "round_config w1 = round_config w" "w_tdata w1 = w_tdata w" "w_barrier w1 = w_barrier w"
      "sp_available (w_s w1) = sp_available (w_s w)" "requests_since w1 = requests_since w"
    using verify_loop_total [OF assms(1)] verify_loop_counts [OF assms(1)] by blast
  with assms(2,3) show ?thesis
    by (simp add: thread_action_def add_available_def td_set_state_def round_config_def requests_since_def)
qed

text \<open>A woken thread serves its segment and goes back to sleep.\<close>

lemma thread_serves:
  assumes "verify_total E" and "tid < length (w_tdata w)" and "length (w_barrier w) = length (w_tdata w)"
    and "td_state (w_tdata w ! tid) = TBUSY" and "\<not> w_barrier w ! tid"
  shows "\<exists>w'. thread_loop E False tid w = Some (False, w') \<and> round_config w' = round_config w \<and>
    w_cmds w' = w_cmds w @ chunks (td_pos (w_tdata w ! tid)) (td_count (w_tdata w ! tid)) \<and>
    w_barrier w' = (w_barrier w)[tid := True] \<and>
    w_tdata w' = (w_tdata w)[tid := (w_tdata w ! tid)\<lparr>td_state := TIDLE\<rparr>] \<and>
    sp_available (w_s w') = sp_available (w_s w) + 1 \<and> requests_since w' = requests_since w"
proof -
  let ?w = "w\<lparr>w_barrier := (w_barrier w)[tid := True]\<rparr>"
  obtain w' where w': "thread_action E tid ?w = Some w'" "round_config w' = round_config w"
      "w_cmds w' = w_cmds w @ chunks (td_pos (w_tdata w ! tid)) (td_count (w_tdata w ! tid))"
      "w_barrier w' = (w_barrier w)[tid := True]"
      "w_tdata w' = (w_tdata w)[tid := (w_tdata w ! tid)\<lparr>td_state := TIDLE\<rparr>]"
      "sp_available (w_s w') = sp_available (w_s w) + 1" "requests_since w' = requests_since w"
    using thread_action_busy [OF assms(1), of tid ?w] assms(2,4)
    by (auto simp: round_config_def requests_since_def)
  have "thread_loop E False tid w' = Some (False, w')"
    by (rule thread_sleeps) (use assms(2,3) w'(4) in simp_all)
  then have "thread_loop E False tid w = Some (False, w')"
    using assms(2,3,5) w'(1) by (subst thread_loop.simps) simp
  with w' show ?thesis by blast
qed

text \<open>
  On a world whose threads are all idle, \<open>segread\<close> returns 0, has the commands of the
  segment sent, and leaves all threads idle again.
\<close>

lemma segread_serves:
  assumes "verify_total E" and "idle_world w"
  shows "\<exists>w'. segread E pos count w = Some (0, w') \<and> idle_world w' \<and> round_config w' = round_config w \<and>
    w_cmds w' = w_cmds w @ chunks pos count \<and> requests_since w' = requests_since w"
proof -
  have idle: "0 < length (w_tdata w)" "nat (sp_threads (w_s w)) = length (w_tdata w)"
      "length (w_barrier w) = length (w_tdata w)" "sp_available (w_s w) \<noteq> 0"
    using assms(2) by (auto simp: idle_world_def)
  then have "td_state (w_tdata w ! 0) = TIDLE"
    using assms(2) by (simp add: idle_world_def)
  then have t: "find_idle (w_tdata w) (length (w_tdata w)) 0 = Some 0"
    by (rule find_idle_first [OF idle(1)])
  let ?w = "hand_over 0 pos count (add_available (-1) w)"
  obtain w' where w': "thread_loop E False 0 ?w = Some (False, w')"
      "round_config w' = round_config ?w" "w_cmds w' = w_cmds w @ chunks pos count"
      "w_barrier w' = (w_barrier ?w)[0 := True]"
      "w_tdata w' = (w_tdata ?w)[0 := (w_tdata ?w ! 0)\<lparr>td_state := TIDLE\<rparr>]"
      "sp_available (w_s w') = sp_available (w_s ?w) + 1" "requests_since w' = requests_since ?w"
    using thread_serves [OF assms(1), of 0 ?w] idle by (auto simp: hand_over_def add_available_def)
  have cfg: "round_config w' = round_config w"
    using w'(2) by (simp add: hand_over_def add_available_def round_config_def)
  have "segread E pos count w = Some (0, w')"
    using w'(1) t idle by (simp add: segread_def add_available_def)
  moreover have "idle_world w'"
  proof -
    have "sp_threads (w_s w') = sp_threads (w_s w)"
      using arg_cong [OF cfg, of "sp_threads \<circ> snd"] by (simp add: round_config_def)
    moreover have "\<forall>d \<in> set (w_tdata w'). td_state d = TIDLE"
      using assms(2) idle(1) unfolding w'(5)
      by (auto simp: hand_over_def add_available_def idle_world_def dest!: set_update_subset_insert [THEN subsetD])
    moreover have "\<forall>b \<in> set (w_barrier w'). b"
      using assms(2) unfolding w'(4)
      by (auto simp: hand_over_def add_available_def idle_world_def dest!: set_update_subset_insert [THEN subsetD])
    ultimately show ?thesis
      using assms(2) w'(4-6) by (simp add: idle_world_def hand_over_def add_available_def)
  qed
  moreover have "requests_since w' = requests_since w"
    using w'(7) by (simp add: requests_since_def hand_over_def add_available_def)
  ultimately show ?thesis using cfg w'(3) by blast
qed

section \<open>What sysfs may do meanwhile\<close>

text \<open>
  A property of the scrubber that neither the writes to sysfs nor the request counter can
  break still holds when \<open>segread\<close> returns.
\<close>

definition sysfs_keeps :: "scrub_env \<Rightarrow> (disk_scrubber \<Rightarrow> bool) \<Rightarrow> bool" where
  "sysfs_keeps E P \<longleftrightarrow> (\<forall>n sc r. P sc \<longrightarrow> P (e_sysfs E n sc) \<and> P (sc\<lparr>ds_reqcount := r\<rparr>))"

lemma verify_chunk_keeps:
  assumes "sysfs_keeps E P" and "verify_chunk E pos num w = Some w'" and "P (w_sc w)"
  shows "P (w_sc w')"
proof -
  obtain res where w': "w' = count_request res (add_resptime E
      (w\<lparr>w_cmds := w_cmds w @ [(pos, num)], w_sc := e_sysfs E (length (w_cmds w)) (w_sc w)\<rparr>))"
    using assms(2) by (auto simp: verify_chunk_def Let_def split: Option.bind_splits)
  have "P (e_sysfs E (length (w_cmds w)) (w_sc w))"
    using assms(1,3) by (simp add: sysfs_keeps_def)
  then show ?thesis
    using assms(1) by (simp add: w' sysfs_keeps_def count_request_def add_resptime_def)
qed

lemma verify_loop_keeps:
  "sysfs_keeps E P \<Longrightarrow> verify_loop E pos count w = Some w' \<Longrightarrow> P (w_sc w) \<Longrightarrow> P (w_sc w')"
proof (induction E pos count w rule: verify_loop.induct)
  case (1 E pos count w)
  obtain w1 where w1: "verify_chunk E pos (chunk_len count) w = Some w1"
      "(if count \<le> 65535 then Some w1 else verify_loop E (pos + 65535) (count - 65535) w1) = Some w'"
    using "1.prems"(2) by (subst (asm) verify_loop.simps) (auto split: Option.bind_splits)
  note P1 = verify_chunk_keeps [OF "1.prems"(1) w1(1) "1.prems"(3)]
  show ?case
    using "1.IH" [OF w1(1) _ "1.prems"(1) _ P1] w1(2) P1 by (auto split: if_splits)
qed

lemma thread_action_keeps:
  assumes "sysfs_keeps E P" and "thread_action E tid w = Some w'" and "P (w_sc w)"
  shows "P (w_sc w')"
  using assms verify_loop_keeps [OF assms(1)]
  by (auto simp: thread_action_def add_available_def td_set_state_def
      split: Option.bind_splits thread_state.splits)

lemma thread_loop_keeps:
  assumes keeps: "sysfs_keeps E P" and ret: "thread_loop E stop tid w = Some y"
  shows "P (w_sc w) \<longrightarrow> P (w_sc (snd y))"
proof -
  have "E = E \<longrightarrow> P (w_sc w) \<longrightarrow> P (w_sc (snd y))"
  proof (rule thread_loop.raw_induct
      [where P = "\<lambda>E' stop tid w y. E' = E \<longrightarrow> P (w_sc w) \<longrightarrow> P (w_sc (snd y))", OF _ ret], intro impI)
    fix loop E' stop tid w y
    assume IH: "\<And>E' stop tid w y. loop E' stop tid w = Some y \<Longrightarrow>
          E' = E \<longrightarrow> P (w_sc w) \<longrightarrow> P (w_sc (snd y))"
      and eq: "do {
          locked \<leftarrow> fetch (w_barrier w) tid;
          let w1 = w\<lparr>w_barrier := (w_barrier w)[tid := True]\<rparr>;
          if locked \<and> \<not> stop then Some (False, w)
          else if stop then Some (True, w1)
          else Option.bind (thread_action E' tid w1) (loop E' stop tid) } = Some y"
      and E: "E' = E" and P: "P (w_sc w)"
    show "P (w_sc (snd y))"
    proof (cases "(w_barrier w ! tid \<and> \<not> stop) \<or> stop")
      case True
      with eq P show ?thesis by (auto simp: Let_def fetch_def split: Option.bind_splits if_splits)
    next
      case False
      with eq obtain w2 where "thread_action E tid (w\<lparr>w_barrier := (w_barrier w)[tid := True]\<rparr>) = Some w2"
          "loop E stop tid w2 = Some y"
        by (auto simp: Let_def E fetch_def split: Option.bind_splits if_splits)
      with IH [of E stop tid w2 y] thread_action_keeps [OF keeps] P show ?thesis by fastforce
    qed
  qed
  then show ?thesis by simp
qed

lemma segread_keeps:
  assumes "sysfs_keeps E P" and "segread E pos count w = Some (r, w')" and "P (w_sc w)"
  shows "P (w_sc w')"
proof -
  obtain t b where "thread_loop E False t (hand_over t pos count (add_available (-1) w)) = Some (b, w')"
    using assms(2) by (auto simp: segread_def Let_def split: if_splits Option.bind_splits)
  from thread_loop_keeps [OF assms(1) this] assms(3) show ?thesis
    by (simp add: hand_over_def add_available_def)
qed

section \<open>Properties\<close>

text \<open>A scrubber with one thread, in an environment without errors and without sysfs writes.\<close>

definition sample_scrub_env :: scrub_env where
  "sample_scrub_env = \<lparr>e_verify = (\<lambda>_ _ _ _. Some 0), e_clock = (\<lambda>n. \<lparr>tv_sec = int n, tv_usec = 0\<rparr>),
     e_kernel_time = (\<lambda>n. \<lparr>ts_sec = int n, ts_nsec = 0\<rparr>), e_sysfs = (\<lambda>_ sc. sc)\<rparr>"

definition sample_world :: scrub_world where
  "sample_world = \<lparr>w_sc = (default_scrubber ''sda'')\<lparr>ds_state := STATE_ON\<rparr>, w_capacity = 100000000,
     w_s = zero_params\<lparr>sp_threads := 1, sp_available := 1, sp_priority := IDCHKPRIO, sp_segsize := 4096,
             sp_regsize := 262144, sp_capacity := 100000000, sp_strategy := SEQLSCRUB\<rparr>,
     w_tdata = [\<lparr>td_pos = 0, td_count = 0, td_state = TIDLE, td_tid = 0\<rparr>], w_barrier = [True],
     w_cmds = [], w_ticks = 0\<rparr>"

lemma sample_total [simp]: "verify_total sample_scrub_env"
  by (simp add: verify_total_def sample_scrub_env_def)

lemma sample_idle [simp]: "idle_world sample_world"
  by (simp add: idle_world_def sample_world_def)

text \<open>
  C8: The loop of \<open>kthread_segread\<close> returns for every segment that does not wrap around the
  64-bit sector number. The commands it sends address exactly the sectors of the segment,
  in ascending order and each once, none addresses more than 65535 sectors, there are as
  few as possible, and the request counter grows by their number.
\<close>

theorem segment_is_verified:
  assumes "verify_total E" and "unat pos + unat count \<le> 2 ^ 64"
  shows "\<exists>w' cmds. verify_loop E pos count w = Some w' \<and> w_cmds w' = w_cmds w @ cmds \<and>
    cmds_sectors cmds = [unat pos ..< unat pos + unat count] \<and>
    (\<forall>c \<in> set cmds. unat (snd c) \<le> 65535) \<and>
    length cmds = max 1 ((unat count + 65534) div 65535) \<and>
    sp_reqcount (w_s w') = sp_reqcount (w_s w) + of_nat (length cmds)"
proof -
  have "\<forall>c \<in> set (chunks pos count). unat (snd c) \<le> 65535"
    using chunks_bounded by (metis prod.collapse)
  with verify_loop_total [OF assms(1), of pos count w] chunks_sectors [OF assms(2)] length_chunks
  show ?thesis by metis
qed

theorem segment_is_verified_witness:
  "\<exists>w' cmds. verify_loop sample_scrub_env 10 100000 sample_world = Some w' \<and> length cmds = 2 \<and>
     cmds_sectors cmds = [unat (10 :: u64) ..< unat (10 :: u64) + unat (100000 :: u64)]"
proof -
  have "unat (10 :: u64) + unat (100000 :: u64) \<le> 2 ^ 64" by simp
  from segment_is_verified [OF sample_total this, of sample_world]
  obtain w' cmds where "verify_loop sample_scrub_env 10 100000 sample_world = Some w'"
      "cmds_sectors cmds = [unat (10 :: u64) ..< unat (10 :: u64) + unat (100000 :: u64)]"
      "length cmds = max 1 ((unat (100000 :: u64) + 65534) div 65535)"
    by blast
  moreover have "max 1 ((unat (100000 :: u64) + 65534) div 65535) = 2" by simp
  ultimately show ?thesis by metis
qed

text \<open>
  The search of \<open>segread\<close> for an idle thread ends, at an idle thread, whenever one of
  the threads is idle, wherever the search starts.
\<close>

theorem idle_thread_is_found:
  assumes "length tdata = n" and "s < n" and "td_state (tdata ! s) = TIDLE" and "t < n"
  shows "\<exists>r. find_idle tdata n t = Some r \<and> r < n \<and> td_state (tdata ! r) = TIDLE"
  by (rule find_idle_ends_aux [OF assms])

theorem idle_thread_is_found_witness:
  "\<exists>r. find_idle [\<lparr>td_pos = 0, td_count = 0, td_state = TIDLE, td_tid = 0\<rparr>,
      \<lparr>td_pos = 0, td_count = 0, td_state = TBUSY, td_tid = 1\<rparr>] 2 1 = Some r"
  using idle_thread_is_found [of "[\<lparr>td_pos = 0, td_count = 0, td_state = TIDLE, td_tid = 0\<rparr>,
      \<lparr>td_pos = 0, td_count = 0, td_state = TBUSY, td_tid = 1\<rparr>]" 2 0 1] by auto



end
