(* ===== verification/Scrub_Strategy.thy ===== *)
theory Scrub_Strategy
  imports Scrub_Worker "HOL-Library.Multiset"
begin

text \<open>
  The scrubbing strategies of \<^verbatim>\<open>block/scrub_core.c\<close>: \<open>lceil\<close>, \<open>seqscrub\<close>, \<open>stgscrub\<close>,
  \<open>fixedscrub\<close> and \<open>scrubdev\<close>. They reach the threads through \<open>segread\<close> only, which is an
  argument here; what they rely on is the locale \<open>segreader\<close>, interpreted on
  \<^const>\<open>segread\<close>. The output of \<open>printk\<close> is not modelled.
\<close>

type_synonym reader = "u64 \<Rightarrow> u64 \<Rightarrow> scrub_world \<Rightarrow> (int \<times> scrub_world) option"

section \<open>The strategies\<close>

text \<open>\<open>None\<close> is the trap of a division by zero.\<close>

definition lceil :: "u64 \<Rightarrow> u64 \<Rightarrow> u64 option" where
  "lceil whole part =
     (if part = 0 then None
      else if whole mod part = 0 then Some (whole div part)
      else Some (1 + whole div part))"

definition segment_len :: "scrubparams \<Rightarrow> u64 \<Rightarrow> u64" where
  "segment_len s pos =
     (if pos + sp_segsize s > sp_capacity s
      then (if sp_segsize s > sp_capacity s then sp_capacity s else sp_capacity s - pos)
      else sp_segsize s)"

text \<open>
  The test after every segment, \<open>state == 2 || (reqbound && ++reqcount > reqbound)\<close>: does
  the round end, and the new \<open>reqcount\<close>.
\<close>

definition round_ends :: "scrub_world \<Rightarrow> u64 \<Rightarrow> bool \<times> u64" where
  "round_ends w reqcount =
     (if ds_state (w_sc w) = STATE_ABORT then (True, reqcount)
      else if sp_reqbound (w_s w) \<noteq> 0 then (reqcount + 1 > sp_reqbound (w_s w), reqcount + 1)
      else (False, reqcount))"

text \<open>
  One segment: \<open>Inl r\<close> when the strategy returns \<open>r\<close>, \<open>Inr reqcount\<close> when it goes on.
\<close>

definition scrub_segment :: "reader \<Rightarrow> u64 \<Rightarrow> u64 \<Rightarrow> u64 \<Rightarrow> scrub_world \<Rightarrow> ((int + u64) \<times> scrub_world) option" where
  "scrub_segment rd pos num reqcount w = do {
     (r, w') \<leftarrow> rd pos num w;
     if r \<noteq> 0 then Some (Inl (-1), w')
     else (case round_ends w' reqcount of (end, rc) \<Rightarrow>
             if end then Some (Inl 0, w') else Some (Inr rc, w')) }"

partial_function (option) seq_loop :: "reader \<Rightarrow> u64 \<Rightarrow> u64 \<Rightarrow> scrub_world \<Rightarrow> (int \<times> scrub_world) option" where
  "seq_loop rd pos reqcount w =
     (if \<not> pos < sp_capacity (w_s w) then Some (0, w)
      else Option.bind (scrub_segment rd pos (segment_len (w_s w) pos) reqcount w)
        (\<lambda>(x, w'). case x of
             Inl r \<Rightarrow> Some (r, w')
           | Inr rc \<Rightarrow> seq_loop rd (pos + segment_len (w_s w) pos) rc w'))"

definition seqscrub :: "reader \<Rightarrow> scrub_world \<Rightarrow> (int \<times> scrub_world) option" where
  "seqscrub rd w = seq_loop rd (sp_start (w_s w)) 0 w"

lemma word_Suc_measure:
  assumes "a < (b :: 'a::len word)"
  shows "unat b - unat (a + 1) < unat b - unat a"
proof -
  have "unat a + 1 < 2 ^ LENGTH('a)"
    using assms unat_less_exp [of b] unfolding word_less_nat_alt by linarith
  then have "unat (a + 1) = unat a + 1" using unat_add_nowrap [of a 1] by simp
  with assms show ?thesis by (simp add: word_less_nat_alt)
qed

definition stag_pos :: "scrubparams \<Rightarrow> u64 \<Rightarrow> u64 \<Rightarrow> u64" where
  "stag_pos s sn rn = sp_start s + rn * sp_regsize s + sn * sp_segsize s"

function stag_regions ::
    "reader \<Rightarrow> u64 \<Rightarrow> u64 \<Rightarrow> u64 \<Rightarrow> u64 \<Rightarrow> scrub_world \<Rightarrow> ((int + u64) \<times> scrub_world) option" where
  "stag_regions rd sn rn regnum reqcount w =
     (if rn < regnum then
        (let pos = stag_pos (w_s w) sn rn in
         if pos < sp_capacity (w_s w)
         then Option.bind (scrub_segment rd pos (segment_len (w_s w) pos) reqcount w)
           (\<lambda>(x, w'). case x of
                Inl r \<Rightarrow> Some (Inl r, w')
              | Inr rc \<Rightarrow> stag_regions rd sn (rn + 1) regnum rc w')
         else stag_regions rd sn (rn + 1) regnum reqcount w)
      else Some (Inr reqcount, w))"
  by pat_completeness auto
termination
  by (relation "measure (\<lambda>(_, _, rn, regnum, _, _). unat regnum - unat rn)")
    (simp_all add: word_Suc_measure)

declare stag_regions.simps [simp del]

function stag_segments ::
    "reader \<Rightarrow> u64 \<Rightarrow> u64 \<Rightarrow> u64 \<Rightarrow> u64 \<Rightarrow> scrub_world \<Rightarrow> (int \<times> scrub_world) option" where
  "stag_segments rd sn segnum regnum reqcount w =
     (if sn < segnum then
        Option.bind (stag_regions rd sn 0 regnum reqcount w)
          (\<lambda>(x, w'). case x of
               Inl r \<Rightarrow> Some (r, w')
             | Inr rc \<Rightarrow> stag_segments rd (sn + 1) segnum regnum rc w')
      else Some (0, w))"
  by pat_completeness auto
termination
  by (relation "measure (\<lambda>(_, sn, segnum, _, _, _). unat segnum - unat sn)")
    (simp_all add: word_Suc_measure)

declare stag_segments.simps [simp del]

definition stgscrub :: "reader \<Rightarrow> scrub_world \<Rightarrow> (int \<times> scrub_world) option" where
  "stgscrub rd w = do {
     regnum \<leftarrow> lceil (sp_capacity (w_s w) - sp_start (w_s w)) (sp_regsize (w_s w));
     segnum \<leftarrow> lceil (sp_regsize (w_s w)) (sp_segsize (w_s w));
     stag_segments rd 0 segnum regnum 0 w }"

definition set_timed :: "int \<Rightarrow> scrub_world \<Rightarrow> scrub_world" where
  "set_timed t w = w\<lparr>w_s := (w_s w)\<lparr>sp_timed := t\<rparr>\<rparr>"

definition fixed_pos :: "u64 \<Rightarrow> u64" where
  "fixed_pos i =
     (if i mod 2 = 0 then 0 + (i div 2) * 400000 else 40000000 - ((i - 1) div 2) * 400000)"

function fixed_loop :: "reader \<Rightarrow> u64 \<Rightarrow> scrub_world \<Rightarrow> (int \<times> scrub_world) option" where
  "fixed_loop rd i w =
     (if i < 50 then do {
        (r, w') \<leftarrow> rd (fixed_pos i) (sp_segsize (w_s w)) w;
        if r \<noteq> 0 then Some (-1, w') else fixed_loop rd (i + 1) w' }
      else Some (0, w))"
  by pat_completeness auto
termination
  by (relation "measure (\<lambda>(_, i, _). unat (50 :: u64) - unat i)") (simp_all only: in_measure prod.case wf_measure word_Suc_measure)

declare fixed_loop.simps [simp del]

definition fixedscrub :: "reader \<Rightarrow> scrub_world \<Rightarrow> (int \<times> scrub_world) option" where
  "fixedscrub rd w =
     (if w_capacity w < 40000001 then Some (-1, w)
      else do {
        (r, w1) \<leftarrow> rd 0 1 (set_timed 0 w);
        if r \<noteq> 0 then Some (-1, w1)
        else fixed_loop rd 0 (set_timed 1 w1) })"

definition scrubdev_params :: "u64 \<Rightarrow> scrubparams \<Rightarrow> scrubparams" where
  "scrubdev_params cap s =
     s\<lparr>sp_capacity := (if sp_capacity s = 0 \<or> sp_start s + sp_capacity s > cap then cap
                        else sp_start s + sp_capacity s),
       sp_regsize := sp_regsize s * 2,
       sp_segsize := sp_segsize s * 2\<rparr>"

definition scrubdev :: "reader \<Rightarrow> scrub_world \<Rightarrow> (int \<times> scrub_world) option" where
  "scrubdev rd w0 =
     (let w = w0\<lparr>w_s := scrubdev_params (w_capacity w0) (w_s w0)\<rparr> in
      if sp_strategy (w_s w) = SEQLSCRUB then seqscrub rd w
      else if sp_strategy (w_s w) = STAGSCRUB then stgscrub rd w
      else if sp_strategy (w_s w) = FIXEDSCRUB then fixedscrub rd w
      else Some (0, w))"

section \<open>Plans\<close>

text \<open>
  A plan is the list of segments (first sector, length) that a strategy reads when nothing
  stops it. \<open>run_plan\<close> reads them one by one.
\<close>

type_synonym plan = "(nat \<times> nat) list"

primrec run_plan :: "reader \<Rightarrow> plan \<Rightarrow> u64 \<Rightarrow> scrub_world \<Rightarrow> ((int + u64) \<times> scrub_world) option" where
  "run_plan rd [] reqcount w = Some (Inr reqcount, w)"
| "run_plan rd (seg # segs) reqcount w =
     Option.bind (scrub_segment rd (of_nat (fst seg)) (of_nat (snd seg)) reqcount w)
       (\<lambda>(x, w'). case x of
            Inl r \<Rightarrow> Some (Inl r, w')
          | Inr rc \<Rightarrow> run_plan rd segs rc w')"

lemma run_plan_append:
  "run_plan rd (xs @ ys) rc w =
     Option.bind (run_plan rd xs rc w)
       (\<lambda>(x, w'). case x of Inl r \<Rightarrow> Some (Inl r, w') | Inr rc' \<Rightarrow> run_plan rd ys rc' w')"
proof (induction xs arbitrary: rc w)
  case (Cons a xs)
  then show ?case
    by (cases "scrub_segment rd (of_nat (fst a)) (of_nat (snd a)) rc w")
      (auto split: sum.split)
qed simp

definition plan_cmds :: "plan \<Rightarrow> (u64 \<times> u32) list" where
  "plan_cmds segs = concat (map (\<lambda>(p, n). chunks (of_nat p) (of_nat n)) segs)"

definition plan_sectors :: "plan \<Rightarrow> nat list" where
  "plan_sectors segs = concat (map (\<lambda>(p, n). [p ..< p + n]) segs)"

lemma plan_simps [simp]:
  "plan_cmds [] = []"
  "plan_cmds (s # segs) = chunks (of_nat (fst s)) (of_nat (snd s)) @ plan_cmds segs"
  "plan_cmds (xs @ ys) = plan_cmds xs @ plan_cmds ys"
  "plan_sectors [] = []"
  "plan_sectors (s # segs) = [fst s ..< fst s + snd s] @ plan_sectors segs"
  "plan_sectors (xs @ ys) = plan_sectors xs @ plan_sectors ys"
  by (auto simp: plan_cmds_def plan_sectors_def split: prod.split)

text \<open>A plan within the first \<open>cap\<close> sectors of the disk.\<close>

definition plan_within :: "nat \<Rightarrow> plan \<Rightarrow> bool" where
  "plan_within cap segs \<longleftrightarrow> (\<forall>(p, n) \<in> set segs. p + n \<le> cap)"

lemma plan_cmds_sectors:
  assumes "plan_within cap segs" and "cap < 2 ^ 64"
  shows "cmds_sectors (plan_cmds segs) = plan_sectors segs"
  using assms(1)
proof (induction segs)
  case (Cons s segs)
  obtain p n where s: "s = (p, n)" by fastforce
  have "p + n \<le> cap" "plan_within cap segs" using Cons.prems by (auto simp: plan_within_def s)
  then have "unat (of_nat p :: u64) = p" "unat (of_nat n :: u64) = n"
    using assms(2) by (auto intro!: unat_of_nat_u64)
  then have "cmds_sectors (chunks (of_nat p) (of_nat n)) = [p ..< p + n]"
    using chunks_sectors [of "of_nat p" "of_nat n"] \<open>p + n \<le> cap\<close> assms(2) by simp
  then show ?case
    using Cons.IH \<open>plan_within cap segs\<close> by (simp add: s)
qed simp

lemma plan_cmds_bounded: "c \<in> set (plan_cmds segs) \<Longrightarrow> unat (snd c) \<le> 65535"
  by (cases c) (auto simp: plan_cmds_def dest: chunks_bounded)

section \<open>The interface to the threads\<close>

locale segreader =
  fixes rd :: reader and ready :: "scrub_world \<Rightarrow> bool"
  assumes reads: "ready w \<Longrightarrow> \<exists>w'. rd pos num w = Some (0, w') \<and> ready w' \<and>
        round_config w' = round_config w \<and> w_cmds w' = w_cmds w @ chunks pos num"
    and ready_params: "ready w \<Longrightarrow> sp_threads s = sp_threads (w_s w) \<Longrightarrow>
        sp_available s = sp_available (w_s w) \<Longrightarrow> sp_reqcount s = sp_reqcount (w_s w) \<Longrightarrow>
        ready (w\<lparr>w_s := s\<rparr>)"

text \<open>The fields of the parameters that no read changes.\<close>

lemma round_config_eq:
  assumes "round_config w' = round_config w"
  shows "w_capacity w' = w_capacity w" "sp_capacity (w_s w') = sp_capacity (w_s w)"
    "sp_segsize (w_s w') = sp_segsize (w_s w)" "sp_regsize (w_s w') = sp_regsize (w_s w)"
    "sp_start (w_s w') = sp_start (w_s w)" "sp_reqbound (w_s w') = sp_reqbound (w_s w)"
    "sp_strategy (w_s w') = sp_strategy (w_s w)" "sp_threads (w_s w') = sp_threads (w_s w)"
    "sp_timed (w_s w') = sp_timed (w_s w)"
proof -
  have s: "(w_s w')\<lparr>sp_available := 0, sp_read_errs := 0, sp_resptime_us := 0, sp_reqcount := 0\<rparr> =
      (w_s w)\<lparr>sp_available := 0, sp_read_errs := 0, sp_resptime_us := 0, sp_reqcount := 0\<rparr>"
    using assms by (simp add: round_config_def)
  show "w_capacity w' = w_capacity w" using assms by (simp add: round_config_def)
  show "sp_capacity (w_s w') = sp_capacity (w_s w)" using arg_cong [OF s, of sp_capacity] by simp
  show "sp_segsize (w_s w') = sp_segsize (w_s w)" using arg_cong [OF s, of sp_segsize] by simp
  show "sp_regsize (w_s w') = sp_regsize (w_s w)" using arg_cong [OF s, of sp_regsize] by simp
  show "sp_start (w_s w') = sp_start (w_s w)" using arg_cong [OF s, of sp_start] by simp
  show "sp_reqbound (w_s w') = sp_reqbound (w_s w)" using arg_cong [OF s, of sp_reqbound] by simp
  show "sp_strategy (w_s w') = sp_strategy (w_s w)" using arg_cong [OF s, of sp_strategy] by simp
  show "sp_threads (w_s w') = sp_threads (w_s w)" using arg_cong [OF s, of sp_threads] by simp
  show "sp_timed (w_s w') = sp_timed (w_s w)" using arg_cong [OF s, of sp_timed] by simp
qed

lemma segment_len_config:
  assumes "round_config w' = round_config w"
  shows "segment_len (w_s w') = segment_len (w_s w)"
  by (rule ext) (simp add: segment_len_def round_config_eq [OF assms])

lemma stag_pos_config:
  assumes "round_config w' = round_config w"
  shows "stag_pos (w_s w') = stag_pos (w_s w)"
  by (intro ext) (simp add: stag_pos_def round_config_eq [OF assms])

text \<open>
  How far a round got: it read \<open>k\<close> segments of its plan. It stops before the end only when
  the state is \<open>abort\<close>, or after \<open>reqbound + 1\<close> segments.
\<close>

definition round_reads :: "plan \<Rightarrow> scrub_world \<Rightarrow> scrub_world \<Rightarrow> nat \<Rightarrow> bool" where
  "round_reads segs w w' k \<longleftrightarrow> k \<le> length segs \<and> w_cmds w' = w_cmds w @ plan_cmds (take k segs) \<and>
     (k < length segs \<longrightarrow> ds_state (w_sc w') = STATE_ABORT \<or>
        (sp_reqbound (w_s w) \<noteq> 0 \<and> k = unat (sp_reqbound (w_s w)) + 1)) \<and>
     (sp_reqbound (w_s w) \<noteq> 0 \<longrightarrow> k \<le> unat (sp_reqbound (w_s w)) + 1)"

definition finish :: "(int + u64) \<times> scrub_world \<Rightarrow> int \<times> scrub_world" where
  "finish xw = (case fst xw of Inl r \<Rightarrow> r | Inr _ \<Rightarrow> 0, snd xw)"

lemma unat_inc_le:
  assumes "\<not> rb < rc + 1" and "unat rc + 1 < 2 ^ 64"
  shows "unat (rc + 1 :: u64) = unat rc + 1" and "unat rc + 1 \<le> unat rb"
proof -
  show "unat (rc + 1) = unat rc + 1" using unat_add_nowrap [of rc 1] assms(2) by simp
  with assms(1) show "unat rc + 1 \<le> unat rb" by (simp add: not_less word_le_nat_alt)
qed

context segreader
begin

lemma segment:
  assumes "ready w"
  shows "\<exists>w'. scrub_segment rd pos num rc w =
      Some (case round_ends w' rc of (e, rc') \<Rightarrow> if e then Inl 0 else Inr rc', w') \<and>
    ready w' \<and> round_config w' = round_config w \<and> w_cmds w' = w_cmds w @ chunks pos num"
proof -
  obtain w' where "rd pos num w = Some (0, w')" "ready w'" "round_config w' = round_config w"
      "w_cmds w' = w_cmds w @ chunks pos num"
    using reads [OF assms] by blast
  then show ?thesis by (simp add: scrub_segment_def split: prod.split)
qed

lemma run_plan_reads:
  assumes "ready w" and "unat rc + length segs < 2 ^ 64"
    and "sp_reqbound (w_s w) \<noteq> 0 \<longrightarrow> unat rc \<le> unat (sp_reqbound (w_s w))"
  shows "\<exists>x w' k. run_plan rd segs rc w = Some (x, w') \<and> ready w' \<and> round_config w' = round_config w \<and>
      k \<le> length segs \<and> w_cmds w' = w_cmds w @ plan_cmds (take k segs) \<and> (\<forall>r. x = Inl r \<longrightarrow> r = 0) \<and>
      (k < length segs \<longrightarrow> ds_state (w_sc w') = STATE_ABORT \<or>
         (sp_reqbound (w_s w) \<noteq> 0 \<and> unat rc + k = unat (sp_reqbound (w_s w)) + 1)) \<and>
      (sp_reqbound (w_s w) \<noteq> 0 \<longrightarrow> unat rc + k \<le> unat (sp_reqbound (w_s w)) + 1)"
  using assms
proof (induction segs arbitrary: rc w)
  case Nil
  then show ?case by (intro exI [of _ "Inr rc"] exI [of _ w] exI [of _ 0]) auto
next
  case (Cons seg segs)
  let ?rb = "sp_reqbound (w_s w)"
  obtain w1 where w1: "scrub_segment rd (of_nat (fst seg)) (of_nat (snd seg)) rc w =
        Some (case round_ends w1 rc of (e, rc') \<Rightarrow> if e then Inl 0 else Inr rc', w1)"
      "ready w1" "round_config w1 = round_config w"
      "w_cmds w1 = w_cmds w @ chunks (of_nat (fst seg)) (of_nat (snd seg))"
    using segment [OF Cons.prems(1)] by blast
  note rb = round_config_eq(6) [OF w1(3)]
  obtain e rc' where er: "round_ends w1 rc = (e, rc')" by fastforce
  show ?case
  proof (cases e)
    case True
    have "ds_state (w_sc w1) = STATE_ABORT \<or> ?rb \<noteq> 0 \<and> unat rc + 1 = unat ?rb + 1"
      using er True Cons.prems(2,3) rb unat_add_nowrap [of rc 1]
      by (auto simp: round_ends_def word_less_nat_alt split: if_splits)
    with True w1 er Cons.prems(3) show ?thesis
      by (intro exI [of _ "Inl 0"] exI [of _ w1] exI [of _ 1]) auto
  next
    case False
    have rc': "?rb \<noteq> 0 \<longrightarrow> unat rc' = unat rc + 1 \<and> unat rc' \<le> unat ?rb" "?rb = 0 \<longrightarrow> rc' = rc"
      using er False rb unat_inc_le [of ?rb rc] Cons.prems(2)
      by (auto simp: round_ends_def split: if_splits)
    have "unat rc' + length segs < 2 ^ 64" using rc' Cons.prems(2) by (cases "?rb = 0") auto
    then obtain x w' k where IH: "run_plan rd segs rc' w1 = Some (x, w')" "ready w'"
        "round_config w' = round_config w1" "k \<le> length segs"
        "w_cmds w' = w_cmds w1 @ plan_cmds (take k segs)" "\<forall>r. x = Inl r \<longrightarrow> r = 0"
        "k < length segs \<longrightarrow> ds_state (w_sc w') = STATE_ABORT \<or>
           (?rb \<noteq> 0 \<and> unat rc' + k = unat ?rb + 1)"
        "?rb \<noteq> 0 \<longrightarrow> unat rc' + k \<le> unat ?rb + 1"
      using Cons.IH [OF w1(2), of rc'] rc' unfolding rb by blast
    with w1 er False rc' show ?thesis
      by (intro exI [of _ x] exI [of _ w'] exI [of _ "Suc k"]) auto
  qed
qed

lemma run_plan_round:
  assumes "ready w" and "length segs < 2 ^ 64"
  shows "\<exists>w' k. map_option finish (run_plan rd segs 0 w) = Some (0, w') \<and> ready w' \<and>
    round_config w' = round_config w \<and> round_reads segs w w' k"
proof -
  obtain x w' k where *: "run_plan rd segs 0 w = Some (x, w')" "ready w'"
      "round_config w' = round_config w" "k \<le> length segs"
      "w_cmds w' = w_cmds w @ plan_cmds (take k segs)" "\<forall>r. x = Inl r \<longrightarrow> r = 0"
      "k < length segs \<longrightarrow> ds_state (w_sc w') = STATE_ABORT \<or>
         (sp_reqbound (w_s w) \<noteq> 0 \<and> k = unat (sp_reqbound (w_s w)) + 1)"
      "sp_reqbound (w_s w) \<noteq> 0 \<longrightarrow> k \<le> unat (sp_reqbound (w_s w)) + 1"
    using run_plan_reads [OF assms(1), of 0 segs] assms(2) by auto
  then have "round_reads segs w w' k" by (simp add: round_reads_def)
  moreover have "finish (x, w') = (0, w')" using *(6) by (auto simp: finish_def split: sum.split)
  ultimately show ?thesis using * by auto
qed

end

section \<open>Sequential scrubbing\<close>

function seq_plan :: "nat \<Rightarrow> nat \<Rightarrow> nat \<Rightarrow> plan" where
  "seq_plan pos cap seg =
     (if pos < cap \<and> 0 < seg then (pos, min seg (cap - pos)) # seq_plan (pos + seg) cap seg else [])"
  by pat_completeness auto
termination
  by (relation "measure (\<lambda>(pos, cap, _). cap - pos)") auto

declare seq_plan.simps [simp del]

lemma seq_plan_end: "cap \<le> pos \<Longrightarrow> seq_plan pos cap seg = []"
  by (subst seq_plan.simps) simp

lemma seq_plan_sectors: "0 < seg \<Longrightarrow> plan_sectors (seq_plan pos cap seg) = [pos ..< cap]"
proof (induction pos cap seg rule: seq_plan.induct)
  case (1 pos cap seg)
  show ?case
  proof (cases "pos < cap")
    case True
    then have IH: "plan_sectors (seq_plan (pos + seg) cap seg) = [pos + seg ..< cap]"
      using 1 by simp
    have "[pos ..< pos + min seg (cap - pos)] @ [pos + seg ..< cap] = [pos ..< cap]"
      using upt_add_eq_append [of pos "pos + seg" "cap - (pos + seg)"] True
      by (cases "pos + seg \<le> cap") (simp_all add: min_def)
    with True IH "1.prems" show ?thesis by (subst seq_plan.simps) simp
  qed (simp add: seq_plan_end)
qed

lemma seq_plan_within: "plan_within cap (seq_plan pos cap seg)"
proof (induction pos cap seg rule: seq_plan.induct)
  case (1 pos cap seg)
  then show ?case
    by (subst seq_plan.simps) (auto simp: plan_within_def)
qed

lemma length_seq_plan: "length (seq_plan pos cap seg) \<le> cap - pos"
proof (induction pos cap seg rule: seq_plan.induct)
  case (1 pos cap seg)
  then show ?case
    by (subst seq_plan.simps) (cases "pos < cap \<and> 0 < seg", auto)
qed

text \<open>
  The conditions under which the C arithmetic of a round does not wrap and does not leave
  the disk: positive sizes, and a segment that is not larger than the end of the scrubbed
  area, unless the round starts at sector 0.
\<close>

definition segments_fit :: "scrubparams \<Rightarrow> bool" where
  "segments_fit s \<longleftrightarrow> sp_segsize s \<noteq> 0 \<and>
     unat (sp_capacity s) + unat (sp_segsize s) \<le> 2 ^ 64 \<and>
     (sp_segsize s \<le> sp_capacity s \<or> sp_start s = 0)"

lemma unat_segment_len:
  assumes "pos < sp_capacity s" and "unat (sp_capacity s) + unat (sp_segsize s) \<le> 2 ^ 64"
    and "sp_segsize s \<le> sp_capacity s \<or> pos = 0"
  shows "unat (segment_len s pos) = min (unat (sp_segsize s)) (unat (sp_capacity s) - unat pos)"
proof -
  have sum: "unat (pos + sp_segsize s) = unat pos + unat (sp_segsize s)"
    by (rule unat_add_nowrap) (use assms(1,2) in \<open>simp add: word_less_nat_alt\<close>)
  have "unat (sp_capacity s - pos) = unat (sp_capacity s) - unat pos"
    by (rule unat_sub_le) (use assms(1) in simp)
  with assms(1,3) show ?thesis
    by (auto simp: segment_len_def word_less_nat_alt word_le_nat_alt sum min_def)
qed

context segreader
begin

lemma seq_loop_plan:
  assumes "ready w" and "unat (sp_capacity (w_s w)) + unat (sp_segsize (w_s w)) \<le> 2 ^ 64"
    and "sp_segsize (w_s w) \<noteq> 0"
    and "sp_segsize (w_s w) \<le> sp_capacity (w_s w) \<or> pos = 0 \<or> sp_capacity (w_s w) \<le> pos"
  shows "seq_loop rd pos rc w = map_option finish
    (run_plan rd (seq_plan (unat pos) (unat (sp_capacity (w_s w))) (unat (sp_segsize (w_s w)))) rc w)"
  using assms
proof (induction "unat (sp_capacity (w_s w)) - unat pos" arbitrary: pos rc w rule: less_induct)
  case less
  let ?cap = "sp_capacity (w_s w)" and ?seg = "sp_segsize (w_s w)"
  let ?len = "segment_len (w_s w) pos"
  show ?case
  proof (cases "pos < ?cap")
    case False
    then show ?thesis
      by (subst seq_loop.simps) (simp add: seq_plan_end not_less word_le_nat_alt finish_def)
  next
    case True
    have seg: "0 < unat ?seg" using less.prems(3) by (simp add: unat_gt_0)
    have len: "unat ?len = min (unat ?seg) (unat ?cap - unat pos)"
      using True less.prems(2,4) by (intro unat_segment_len) auto
    have pos: "unat (pos + ?len) = unat pos + unat ?len"
    proof (rule unat_add_nowrap)
      have "unat pos + unat ?len \<le> unat ?cap" using len True by (simp add: word_less_nat_alt)
      then show "unat pos + unat ?len < 2 ^ LENGTH(64)" using unat_u64_less [of ?cap] by simp
    qed
    have plan: "seq_plan (unat pos) (unat ?cap) (unat ?seg) =
        (unat pos, unat ?len) # seq_plan (unat (pos + ?len)) (unat ?cap) (unat ?seg)"
      using True seg len pos
      by (subst seq_plan.simps) (auto simp: word_less_nat_alt min_def seq_plan_end)
    obtain w1 where w1: "scrub_segment rd pos ?len rc w =
          Some (case round_ends w1 rc of (e, rc') \<Rightarrow> if e then Inl 0 else Inr rc', w1)"
        "ready w1" "round_config w1 = round_config w"
      using segment [OF less.prems(1)] by blast
    have "unat ?cap - unat (pos + ?len) < unat ?cap - unat pos"
      using True seg len pos by (simp add: word_less_nat_alt)
    moreover have "?seg \<le> ?cap \<or> pos + ?len = 0 \<or> ?cap \<le> pos + ?len"
      using less.prems(4) True len pos by (auto simp: word_le_nat_alt word_less_nat_alt)
    ultimately have IH: "seq_loop rd (pos + ?len) rc' w1 = map_option finish
        (run_plan rd (seq_plan (unat (pos + ?len)) (unat ?cap) (unat ?seg)) rc' w1)" for rc'
      using less.hyps [of w1 "pos + ?len" rc'] w1(2) less.prems(2,3)
      by (simp add: round_config_eq [OF w1(3)])
    obtain e rc' where "round_ends w1 rc = (e, rc')" by fastforce
    then show ?thesis
      unfolding plan using True w1(1) IH
      by (subst seq_loop.simps) (simp add: finish_def)
  qed
qed

lemma seqscrub_reads:
  assumes "ready w" and "segments_fit (w_s w)"
  shows "\<exists>w' k. seqscrub rd w = Some (0, w') \<and> ready w' \<and> round_config w' = round_config w \<and>
    round_reads (seq_plan (unat (sp_start (w_s w))) (unat (sp_capacity (w_s w)))
      (unat (sp_segsize (w_s w)))) w w' k"
proof -
  let ?plan = "seq_plan (unat (sp_start (w_s w))) (unat (sp_capacity (w_s w))) (unat (sp_segsize (w_s w)))"
  have "seqscrub rd w = map_option finish (run_plan rd ?plan 0 w)"
    using assms unfolding seqscrub_def segments_fit_def by (intro seq_loop_plan) auto
  moreover have "length ?plan < 2 ^ 64"
    using length_seq_plan [of "unat (sp_start (w_s w))" "unat (sp_capacity (w_s w))" "unat (sp_segsize (w_s w))"]
      unat_u64_less [of "sp_capacity (w_s w)"] by linarith
  ultimately show ?thesis using run_plan_round [OF assms(1), of ?plan] by auto
qed

end

section \<open>Staggered scrubbing\<close>

definition ceil_div :: "nat \<Rightarrow> nat \<Rightarrow> nat" where
  "ceil_div a b = (a + b - 1) div b"

lemma ceil_div_eq:
  assumes "0 < b"
  shows "ceil_div a b = (if a mod b = 0 then a div b else 1 + a div b)"
proof -
  have a: "a + b - 1 = b * (a div b) + (a mod b + b - 1)"
    using mult_div_mod_eq [of b a] assms by linarith
  have "ceil_div a b = a div b + (a mod b + b - 1) div b"
    unfolding ceil_div_def a by (rule div_mult_self4) (use assms in simp)
  moreover have "(a mod b + b - 1) div b = 1" if "a mod b \<noteq> 0"
    using that assms mod_less_divisor [OF assms, of a] by (simp add: div_if) linarith
  ultimately show ?thesis using assms by simp
qed

lemma less_ceil_div_iff: "0 < b \<Longrightarrow> i < ceil_div a b \<longleftrightarrow> i * b < a"
proof -
  assume b: "0 < b"
  have "i < ceil_div a b \<longleftrightarrow> Suc i \<le> (a + b - 1) div b" by (simp add: ceil_div_def Suc_le_eq)
  also have "\<dots> \<longleftrightarrow> Suc i * b \<le> a + b - 1" using b by (simp add: less_eq_div_iff_mult_less_eq)
  also have "\<dots> \<longleftrightarrow> i * b < a" using b by (simp, linarith)
  finally show ?thesis .
qed

text \<open>\<open>lceil\<close> rounds the quotient up.\<close>

lemma lceil_correct:
  assumes "part \<noteq> 0"
  shows "\<exists>r. lceil whole part = Some r \<and> unat r = ceil_div (unat whole) (unat part)"
proof -
  have p: "0 < unat part" using assms by (simp add: unat_gt_0)
  have mod0: "whole mod part = 0 \<longleftrightarrow> unat whole mod unat part = 0"
    by (metis unat_0_iff unat_mod)
  show ?thesis
  proof (cases "whole mod part = 0")
    case True
    then show ?thesis using p mod0 assms by (simp add: lceil_def ceil_div_eq unat_div)
  next
    case False
    then have "unat whole mod unat part \<noteq> 0" using mod0 by simp
    then have "unat part \<noteq> 1" by auto
    then have "unat whole div unat part < unat whole \<or> unat whole = 0"
      using p by (cases "unat whole = 0") (auto intro: div_less_dividend)
    then have "unat (whole div part) + unat (1 :: u64) < 2 ^ LENGTH(64)"
      using unat_u64_less [of whole] by (auto simp: unat_div)
    then have "unat (whole div part + 1) = unat whole div unat part + 1"
      using unat_add_nowrap [of "whole div part" 1] by (simp add: unat_div)
    then show ?thesis using False p mod0 assms by (simp add: lceil_def ceil_div_eq add.commute)
  qed
qed

definition stag_row :: "nat \<Rightarrow> nat \<Rightarrow> nat \<Rightarrow> nat \<Rightarrow> nat \<Rightarrow> nat list \<Rightarrow> plan" where
  "stag_row start cap reg seg sn rns =
     map (\<lambda>p. (p, min seg (cap - p)))
       (filter (\<lambda>p. p < cap) (map (\<lambda>rn. start + rn * reg + sn * seg) rns))"

definition stag_rows :: "nat \<Rightarrow> nat \<Rightarrow> nat \<Rightarrow> nat \<Rightarrow> nat list \<Rightarrow> plan" where
  "stag_rows start cap reg seg sns =
     concat (map (\<lambda>sn. stag_row start cap reg seg sn [0 ..< ceil_div (cap - start) reg]) sns)"

definition stag_plan :: "nat \<Rightarrow> nat \<Rightarrow> nat \<Rightarrow> nat \<Rightarrow> plan" where
  "stag_plan start cap reg seg = stag_rows start cap reg seg [0 ..< ceil_div reg seg]"

lemma stag_row_Cons:
  "stag_row start cap reg seg sn (rn # rns) =
     (let p = start + rn * reg + sn * seg in
      (if p < cap then [(p, min seg (cap - p))] else []) @ stag_row start cap reg seg sn rns)"
  by (simp add: stag_row_def Let_def)

lemma stag_rows_Cons:
  "stag_rows start cap reg seg (sn # sns) =
     stag_row start cap reg seg sn [0 ..< ceil_div (cap - start) reg] @ stag_rows start cap reg seg sns"
  by (simp add: stag_rows_def)

lemma stag_plan_within: "plan_within cap (stag_plan start cap reg seg)"
  by (auto simp: plan_within_def stag_plan_def stag_rows_def stag_row_def)

lemma length_stag_rows:
  "length (stag_rows start cap reg seg sns) \<le> length sns * ceil_div (cap - start) reg"
proof (induction sns)
  case (Cons sn sns)
  have "length (stag_row start cap reg seg sn [0 ..< ceil_div (cap - start) reg]) \<le> ceil_div (cap - start) reg"
    by (simp add: stag_row_def) (metis diff_zero length_filter_le length_map length_upt)
  with Cons show ?case by (simp add: stag_rows_Cons)
qed (simp add: stag_rows_def)

lemma length_stag_plan:
  assumes "0 < reg" and "0 < seg" and "cap + reg \<le> 2 ^ 64"
  shows "length (stag_plan start cap reg seg) < 2 ^ 64"
proof -
  have "ceil_div reg seg \<le> reg"
    using less_ceil_div_iff [OF assms(2), of reg reg] assms(2) by (simp add: not_less [symmetric])
  then have m: "ceil_div reg seg * ceil_div (cap - start) reg \<le> reg * ceil_div (cap - start) reg"
    by (rule mult_le_mono1)
  have "length (stag_plan start cap reg seg) \<le> ceil_div reg seg * ceil_div (cap - start) reg"
    using length_stag_rows [of start cap reg seg "[0 ..< ceil_div reg seg]"]
    unfolding stag_plan_def length_upt diff_zero .
  also note m
  also have "reg * ceil_div (cap - start) reg \<le> cap - start + reg - 1"
    unfolding ceil_div_def by (rule times_div_less_eq_dividend)
  finally show ?thesis using assms by linarith
qed

text \<open>The conditions under which no position of a staggered round wraps around.\<close>

definition regions_fit :: "scrubparams \<Rightarrow> bool" where
  "regions_fit s \<longleftrightarrow> segments_fit s \<and> sp_regsize s \<noteq> 0 \<and> sp_start s \<le> sp_capacity s \<and>
     unat (sp_capacity s) + unat (sp_regsize s) \<le> 2 ^ 64 \<and> sp_segsize s \<le> sp_capacity s"

lemma unat_stag_pos:
  assumes fit: "regions_fit s"
    and rn: "unat rn < ceil_div (unat (sp_capacity s) - unat (sp_start s)) (unat (sp_regsize s))"
    and sn: "unat sn < ceil_div (unat (sp_regsize s)) (unat (sp_segsize s))"
  shows "unat (stag_pos s sn rn) =
    unat (sp_start s) + unat rn * unat (sp_regsize s) + unat sn * unat (sp_segsize s)"
proof -
  have pos: "0 < unat (sp_regsize s)" "0 < unat (sp_segsize s)"
    using fit by (simp_all add: regions_fit_def segments_fit_def unat_gt_0)
  have r: "unat (sp_start s) + unat rn * unat (sp_regsize s) < unat (sp_capacity s)"
    using rn pos(1) by (simp add: less_ceil_div_iff)
  have g: "unat sn * unat (sp_segsize s) < unat (sp_regsize s)"
    using sn pos(2) by (simp add: less_ceil_div_iff)
  have cr: "unat (sp_capacity s) + unat (sp_regsize s) \<le> 2 ^ 64" using fit by (simp add: regions_fit_def)
  have 1: "unat (rn * sp_regsize s) = unat rn * unat (sp_regsize s)"
    by (rule unat_mult_nowrap) (use r cr in simp)
  have 2: "unat (sn * sp_segsize s) = unat sn * unat (sp_segsize s)"
    by (rule unat_mult_nowrap) (use g cr in simp)
  have 3: "unat (sp_start s + rn * sp_regsize s) = unat (sp_start s) + unat rn * unat (sp_regsize s)"
    using unat_add_nowrap [of "sp_start s" "rn * sp_regsize s"] 1 r cr by simp
  show ?thesis
    unfolding stag_pos_def
    using unat_add_nowrap [of "sp_start s + rn * sp_regsize s" "sn * sp_segsize s"] 1 2 3 r g cr by simp
qed

context segreader
begin

lemma stag_regions_plan:
  assumes "ready w" and "regions_fit (w_s w)"
    and "unat regnum = ceil_div (unat (sp_capacity (w_s w)) - unat (sp_start (w_s w))) (unat (sp_regsize (w_s w)))"
    and "unat sn < ceil_div (unat (sp_regsize (w_s w))) (unat (sp_segsize (w_s w)))"
  shows "stag_regions rd sn rn regnum rc w =
    run_plan rd (stag_row (unat (sp_start (w_s w))) (unat (sp_capacity (w_s w))) (unat (sp_regsize (w_s w)))
      (unat (sp_segsize (w_s w))) (unat sn) [unat rn ..< unat regnum]) rc w"
  using assms
proof (induction "unat regnum - unat rn" arbitrary: rn rc w rule: less_induct)
  case less
  let ?row = "stag_row (unat (sp_start (w_s w))) (unat (sp_capacity (w_s w))) (unat (sp_regsize (w_s w)))
      (unat (sp_segsize (w_s w))) (unat sn)"
  let ?pos = "stag_pos (w_s w) sn rn"
  show ?case
  proof (cases "rn < regnum")
    case False
    then have nil: "[unat rn ..< unat regnum] = []" by (simp add: not_less word_le_nat_alt)
    show ?thesis unfolding nil using False by (subst stag_regions.simps) (simp add: stag_row_def)
  next
    case True
    have pos: "unat ?pos = unat (sp_start (w_s w)) + unat rn * unat (sp_regsize (w_s w))
        + unat sn * unat (sp_segsize (w_s w))"
      using True less.prems(2-4) by (intro unat_stag_pos) (simp_all add: word_less_nat_alt)
    have rn1: "unat (rn + 1) = Suc (unat rn)"
      using word_Suc_measure [OF True] True unat_add_nowrap [of rn 1] unat_u64_less [of regnum]
      by (simp add: word_less_nat_alt)
    have rns: "[unat rn ..< unat regnum] = unat rn # [unat (rn + 1) ..< unat regnum]"
      using True rn1 by (simp add: upt_conv_Cons word_less_nat_alt)
    have dec: "unat regnum - unat (rn + 1) < unat regnum - unat rn" by (rule word_Suc_measure [OF True])
    show ?thesis
    proof (cases "?pos < sp_capacity (w_s w)")
      case in_disk: False
      from less.hyps [OF dec less.prems] in_disk True pos show ?thesis
        unfolding rns by (subst stag_regions.simps) (simp add: stag_row_Cons Let_def word_less_nat_alt)
    next
      case in_disk: True
      have len: "unat (segment_len (w_s w) ?pos) =
          min (unat (sp_segsize (w_s w))) (unat (sp_capacity (w_s w)) - unat ?pos)"
        using less.prems(2) in_disk by (intro unat_segment_len) (auto simp: regions_fit_def segments_fit_def)
      obtain w1 where w1: "scrub_segment rd ?pos (segment_len (w_s w) ?pos) rc w =
            Some (case round_ends w1 rc of (e, rc') \<Rightarrow> if e then Inl 0 else Inr rc', w1)"
          "ready w1" "round_config w1 = round_config w"
        using segment [OF less.prems(1)] by blast
      note cfg = round_config_eq [OF w1(3)]
      have fit: "regions_fit (w_s w1)"
        using less.prems(2) by (simp add: regions_fit_def segments_fit_def cfg)
      have IH: "stag_regions rd sn (rn + 1) regnum rc' w1 =
          run_plan rd (?row [unat (rn + 1) ..< unat regnum]) rc' w1" for rc'
        using less.hyps [OF dec w1(2) fit] less.prems(3,4) by (simp add: cfg)
      have row: "?row [unat rn ..< unat regnum] =
          (unat ?pos, unat (segment_len (w_s w) ?pos)) # ?row [unat (rn + 1) ..< unat regnum]"
        using in_disk len pos unfolding rns stag_row_Cons by (simp add: word_less_nat_alt Let_def)
      obtain e rc' where "round_ends w1 rc = (e, rc')" by fastforce
      then show ?thesis
        unfolding row using True in_disk w1(1) IH
        by (subst stag_regions.simps) simp
    qed
  qed
qed

lemma run_plan_ready:
  "ready w \<Longrightarrow> \<exists>x w'. run_plan rd segs rc w = Some (x, w') \<and> ready w' \<and> round_config w' = round_config w"
proof (induction segs arbitrary: rc w)
  case (Cons seg segs)
  obtain w1 where w1: "scrub_segment rd (of_nat (fst seg)) (of_nat (snd seg)) rc w =
        Some (case round_ends w1 rc of (e, rc') \<Rightarrow> if e then Inl 0 else Inr rc', w1)"
      "ready w1" "round_config w1 = round_config w"
    using segment [OF Cons.prems] by blast
  obtain e rc' where "round_ends w1 rc = (e, rc')" by fastforce
  with w1 Cons.IH [OF w1(2), of rc'] show ?case by (cases e) auto
qed simp

lemma stag_segments_plan:
  assumes "ready w" and "regions_fit (w_s w)"
    and "unat regnum = ceil_div (unat (sp_capacity (w_s w)) - unat (sp_start (w_s w))) (unat (sp_regsize (w_s w)))"
    and "unat segnum = ceil_div (unat (sp_regsize (w_s w))) (unat (sp_segsize (w_s w)))"
  shows "stag_segments rd sn segnum regnum rc w = map_option finish
    (run_plan rd (stag_rows (unat (sp_start (w_s w))) (unat (sp_capacity (w_s w)))
      (unat (sp_regsize (w_s w))) (unat (sp_segsize (w_s w))) [unat sn ..< unat segnum]) rc w)"
  using assms
proof (induction "unat segnum - unat sn" arbitrary: sn rc w rule: less_induct)
  case less
  let ?start = "unat (sp_start (w_s w))" and ?cap = "unat (sp_capacity (w_s w))"
  let ?reg = "unat (sp_regsize (w_s w))" and ?seg = "unat (sp_segsize (w_s w))"
  show ?case
  proof (cases "sn < segnum")
    case False
    then have nil: "[unat sn ..< unat segnum] = []" by (simp add: not_less word_le_nat_alt)
    show ?thesis unfolding nil using False
      by (subst stag_segments.simps) (simp add: stag_rows_def finish_def)
  next
    case True
    have sn1: "unat (sn + 1) = Suc (unat sn)"
      using True unat_add_nowrap [of sn 1] unat_u64_less [of segnum] by (simp add: word_less_nat_alt)
    have sns: "[unat sn ..< unat segnum] = unat sn # [unat (sn + 1) ..< unat segnum]"
      using True sn1 by (simp add: upt_conv_Cons word_less_nat_alt)
    let ?row = "stag_row ?start ?cap ?reg ?seg (unat sn) [0 ..< unat regnum]"
    have row: "stag_regions rd sn 0 regnum rc w = run_plan rd ?row rc w"
      using stag_regions_plan [OF less.prems(1-3), of sn 0 rc] True less.prems(4)
      by (simp add: word_less_nat_alt)
    obtain x w1 where w1: "run_plan rd ?row rc w = Some (x, w1)" "ready w1" "round_config w1 = round_config w"
      using run_plan_ready [OF less.prems(1)] by blast
    note cfg = round_config_eq [OF w1(3)]
    have fit: "regions_fit (w_s w1)"
      using less.prems(2) by (simp add: regions_fit_def segments_fit_def cfg)
    have IH: "stag_segments rd (sn + 1) segnum regnum rc' w1 = map_option finish
        (run_plan rd (stag_rows ?start ?cap ?reg ?seg [unat (sn + 1) ..< unat segnum]) rc' w1)" for rc'
      using less.hyps [OF word_Suc_measure [OF True] w1(2) fit] less.prems(3,4) by (simp add: cfg)
    show ?thesis
      unfolding sns stag_rows_Cons run_plan_append
      using True row w1(1) IH less.prems(3)
      by (subst stag_segments.simps) (simp add: finish_def split: sum.split)
  qed
qed

lemma stgscrub_reads:
  assumes "ready w" and "regions_fit (w_s w)"
  shows "\<exists>w' k. stgscrub rd w = Some (0, w') \<and> ready w' \<and> round_config w' = round_config w \<and>
    round_reads (stag_plan (unat (sp_start (w_s w))) (unat (sp_capacity (w_s w)))
      (unat (sp_regsize (w_s w))) (unat (sp_segsize (w_s w)))) w w' k"
proof -
  let ?plan = "stag_plan (unat (sp_start (w_s w))) (unat (sp_capacity (w_s w)))
      (unat (sp_regsize (w_s w))) (unat (sp_segsize (w_s w)))"
  have fit: "sp_regsize (w_s w) \<noteq> 0" "sp_segsize (w_s w) \<noteq> 0" "sp_start (w_s w) \<le> sp_capacity (w_s w)"
      "unat (sp_capacity (w_s w)) + unat (sp_regsize (w_s w)) \<le> 2 ^ 64"
    using assms(2) by (simp_all add: regions_fit_def segments_fit_def)
  obtain regnum where regnum: "lceil (sp_capacity (w_s w) - sp_start (w_s w)) (sp_regsize (w_s w)) = Some regnum"
      "unat regnum = ceil_div (unat (sp_capacity (w_s w)) - unat (sp_start (w_s w))) (unat (sp_regsize (w_s w)))"
    using lceil_correct [OF fit(1)] unat_sub_le [OF fit(3)] by metis
  obtain segnum where segnum: "lceil (sp_regsize (w_s w)) (sp_segsize (w_s w)) = Some segnum"
      "unat segnum = ceil_div (unat (sp_regsize (w_s w))) (unat (sp_segsize (w_s w)))"
    using lceil_correct [OF fit(2)] by metis
  have "stgscrub rd w = map_option finish (run_plan rd ?plan 0 w)"
    using stag_segments_plan [OF assms regnum(2) segnum(2), of 0 0] regnum segnum
    by (simp add: stgscrub_def stag_plan_def)
  moreover have "length ?plan < 2 ^ 64"
    using length_stag_plan fit by (simp add: unat_gt_0)
  ultimately show ?thesis using run_plan_round [OF assms(1), of ?plan] by auto
qed

end

section \<open>Staggered scrubbing reads the same sectors\<close>

definition stag_cell :: "nat \<Rightarrow> nat \<Rightarrow> nat \<Rightarrow> nat \<Rightarrow> nat \<Rightarrow> nat \<Rightarrow> nat list" where
  "stag_cell start cap reg seg sn rn =
     (let p = start + rn * reg + sn * seg in [p ..< min (p + seg) cap])"

lemma plan_sectors_row:
  "plan_sectors (stag_row start cap reg seg sn rns) = concat (map (stag_cell start cap reg seg sn) rns)"
proof (induction rns)
  case (Cons rn rns)
  let ?p = "start + rn * reg + sn * seg"
  have "(if ?p < cap then [?p ..< ?p + min seg (cap - ?p)] else []) = stag_cell start cap reg seg sn rn"
    by (auto simp: stag_cell_def Let_def min_def)
  with Cons show ?case by (auto simp: stag_row_Cons Let_def split: if_splits)
qed (simp add: stag_row_def)

lemma plan_sectors_stag:
  "plan_sectors (stag_plan start cap reg seg) =
     concat (map (\<lambda>sn. concat (map (stag_cell start cap reg seg sn) [0 ..< ceil_div (cap - start) reg]))
       [0 ..< ceil_div reg seg])"
proof -
  have "plan_sectors (concat segss) = concat (map plan_sectors segss)" for segss
    by (induction segss) auto
  then show ?thesis
    by (simp add: stag_plan_def stag_rows_def plan_sectors_row comp_def)
qed

lemma stag_covers:
  assumes "0 < reg" and "0 < seg"
  shows "set (plan_sectors (stag_plan start cap reg seg)) = {start ..< cap}"
proof (intro subset_antisym subsetI)
  fix x
  assume "x \<in> set (plan_sectors (stag_plan start cap reg seg))"
  then show "x \<in> {start ..< cap}"
    by (auto simp: plan_sectors_stag stag_cell_def Let_def)
next
  fix x
  assume "x \<in> {start ..< cap}"
  then have x: "start \<le> x" "x < cap" by auto
  define d where "d = x - start"
  let ?rn = "d div reg" and ?sn = "d mod reg div seg"
  have d: "d = ?rn * reg + ?sn * seg + d mod reg mod seg"
    using mult_div_mod_eq [of reg d] mult_div_mod_eq [of seg "d mod reg"] by (simp add: mult.commute)
  have "?rn * reg < cap - start"
    using x d_def div_times_less_eq_dividend [of d reg] by linarith
  then have rn: "?rn < ceil_div (cap - start) reg" by (simp add: less_ceil_div_iff [OF assms(1)])
  have "?sn * seg < reg"
    using div_times_less_eq_dividend [of "d mod reg" seg] mod_less_divisor [OF assms(1), of d] by linarith
  then have sn: "?sn < ceil_div reg seg" by (simp add: less_ceil_div_iff [OF assms(2)])
  have "x \<in> set (stag_cell start cap reg seg ?sn ?rn)"
    using x d d_def mod_less_divisor [OF assms(2), of "d mod reg"]
    unfolding stag_cell_def Let_def set_upt atLeastLessThan_iff by linarith
  with rn sn show "x \<in> set (plan_sectors (stag_plan start cap reg seg))"
    unfolding plan_sectors_stag by simp (meson atLeastLessThan_iff le0)
qed

text \<open>When the region is a multiple of the segment, no sector is read twice.\<close>

lemma stag_cell_unique:
  assumes "seg dvd reg" and "0 < reg" and "0 < seg" and "sn < ceil_div reg seg"
    and "x \<in> set (stag_cell start cap reg seg sn rn)"
  shows "rn = (x - start) div reg" and "sn = (x - start) mod reg div seg"
proof -
  define e where "e = x - (start + rn * reg + sn * seg)"
  have e: "e < seg" "x - start = rn * reg + (sn * seg + e)"
    using assms(5) by (auto simp: e_def stag_cell_def Let_def)
  obtain k where k: "reg = seg * k" using assms(1) by blast
  have "sn < k" using assms(3,4) by (simp add: less_ceil_div_iff k mult.commute)
  then have "sn * seg + e < k * seg"
    using e(1) by (metis add.commute add_less_le_mono mult_Suc mult_le_mono1 Suc_leI less_le_trans add_strict_right_mono)
  then have s: "sn * seg + e < reg" by (simp add: k mult.commute)
  then show "rn = (x - start) div reg"
    unfolding e(2) using assms(2) by simp
  have "(x - start) mod reg = sn * seg + e" unfolding e(2) using s by simp
  then show "sn = (x - start) mod reg div seg" using e(1) by simp
qed

lemma stag_once:
  assumes "seg dvd reg" and "0 < reg" and "0 < seg"
  shows "distinct (plan_sectors (stag_plan start cap reg seg))"
  unfolding plan_sectors_stag
proof (rule distinct_concat_map)
  fix sn
  assume sn: "sn \<in> set [0 ..< ceil_div reg seg]"
  show "distinct (concat (map (stag_cell start cap reg seg sn) [0 ..< ceil_div (cap - start) reg]))"
  proof (rule distinct_concat_map)
    show "rn = rn'" if "x \<in> set (stag_cell start cap reg seg sn rn)" "x \<in> set (stag_cell start cap reg seg sn rn')"
      for rn rn' x
      using stag_cell_unique(1) [OF assms _ that(1)] stag_cell_unique(1) [OF assms _ that(2)] sn by simp
  qed (auto simp: stag_cell_def Let_def)
next
  fix sn sn' x
  assume "sn \<in> set [0 ..< ceil_div reg seg]" "sn' \<in> set [0 ..< ceil_div reg seg]"
    "x \<in> set (concat (map (stag_cell start cap reg seg sn) [0 ..< ceil_div (cap - start) reg]))"
    "x \<in> set (concat (map (stag_cell start cap reg seg sn') [0 ..< ceil_div (cap - start) reg]))"
  then obtain rn rn' where "sn < ceil_div reg seg" "sn' < ceil_div reg seg"
      "x \<in> set (stag_cell start cap reg seg sn rn)" "x \<in> set (stag_cell start cap reg seg sn' rn')"
    by auto
  then show "sn = sn'" using stag_cell_unique(2) [OF assms] by metis
qed simp

section \<open>Fixed scrubbing\<close>

definition fixed_cmds :: "u64 \<Rightarrow> nat \<Rightarrow> (u64 \<times> u32) list" where
  "fixed_cmds seg i = concat (map (\<lambda>j. chunks (fixed_pos (of_nat j)) seg) [i ..< 50])"

context segreader
begin

lemma fixed_loop_reads:
  assumes "ready w"
  shows "\<exists>w'. fixed_loop rd i w = Some (0, w') \<and> ready w' \<and> round_config w' = round_config w \<and>
    w_cmds w' = w_cmds w @ fixed_cmds (sp_segsize (w_s w)) (unat i)"
  using assms
proof (induction "50 - unat i" arbitrary: i w rule: less_induct)
  case less
  show ?case
  proof (cases "i < 50")
    case False
    then have "fixed_cmds seg (unat i) = []" for seg
      by (simp add: fixed_cmds_def not_less word_le_nat_alt)
    with False less.prems show ?thesis by (subst fixed_loop.simps) simp
  next
    case True
    have i1: "unat (i + 1) = Suc (unat i)"
      using True unat_add_nowrap [of i 1] by (simp add: word_less_nat_alt)
    obtain w1 where w1: "rd (fixed_pos i) (sp_segsize (w_s w)) w = Some (0, w1)" "ready w1"
        "round_config w1 = round_config w"
        "w_cmds w1 = w_cmds w @ chunks (fixed_pos i) (sp_segsize (w_s w))"
      using reads [OF less.prems] by blast
    have "50 - unat (i + 1) < 50 - unat i" using True i1 by (simp add: word_less_nat_alt)
    then obtain w' where "fixed_loop rd (i + 1) w1 = Some (0, w')" "ready w'"
        "round_config w' = round_config w1"
        "w_cmds w' = w_cmds w1 @ fixed_cmds (sp_segsize (w_s w1)) (unat (i + 1))"
      using less.hyps [OF _ w1(2)] by blast
    moreover have "fixed_cmds seg (unat i) = chunks (fixed_pos i) seg @ fixed_cmds seg (unat (i + 1))" for seg
      using True i1 by (simp add: fixed_cmds_def upt_conv_Cons word_less_nat_alt)
    ultimately show ?thesis
      using True w1 by (subst fixed_loop.simps) (simp add: round_config_eq [OF w1(3)])
  qed
qed

lemma fixedscrub_reads:
  assumes "ready w" and "40000001 \<le> w_capacity w"
  shows "\<exists>w'. fixedscrub rd w = Some (0, w') \<and> ready w' \<and> sp_threads (w_s w') = sp_threads (w_s w) \<and>
    sp_timed (w_s w') = 1 \<and> w_cmds w' = w_cmds w @ [(0, 1)] @ fixed_cmds (sp_segsize (w_s w)) 0"
proof -
  have "ready (set_timed t w)" if "ready w" for t w
    unfolding set_timed_def using ready_params [OF that] by simp
  then obtain w1 where w1: "rd 0 1 (set_timed 0 w) = Some (0, w1)" "ready (set_timed 1 w1)"
      "round_config w1 = round_config (set_timed 0 w)" "w_cmds w1 = w_cmds w @ chunks 0 1"
    using reads [of "set_timed 0 w" 0 1] assms(1) by (auto simp: set_timed_def)
  have seg: "sp_segsize (w_s (set_timed 1 w1)) = sp_segsize (w_s w)"
    using round_config_eq(3) [OF w1(3)] by (simp add: set_timed_def)
  have 1: "chunks 0 1 = [(0, 1)]"
    by (subst chunks.simps) (simp add: chunk_len_def)
  obtain w' where w': "fixed_loop rd 0 (set_timed 1 w1) = Some (0, w')" "ready w'"
      "round_config w' = round_config (set_timed 1 w1)"
      "w_cmds w' = w_cmds (set_timed 1 w1) @ fixed_cmds (sp_segsize (w_s w)) 0"
    using fixed_loop_reads [OF w1(2), of 0] seg by auto
  have "sp_threads (w_s w') = sp_threads (w_s w)"
    using round_config_eq(8) [OF w'(3)] round_config_eq(8) [OF w1(3)] by (simp add: set_timed_def)
  moreover have "sp_timed (w_s w') = 1"
    using round_config_eq(9) [OF w'(3)] by (simp add: set_timed_def)
  moreover have "w_cmds w' = w_cmds w @ [(0, 1)] @ fixed_cmds (sp_segsize (w_s w)) 0"
    using w'(4) w1(4) 1 by (simp add: set_timed_def)
  ultimately show ?thesis
    using w1(1) w' assms(2) by (auto simp: fixedscrub_def not_le [symmetric])
qed

end

section \<open>Scrubbing the device\<close>

text \<open>
  The area of a round, in sectors: \<open>scount\<close> sectors from \<open>spoint\<close> on, or the rest of the
  disk when \<open>scount\<close> is 0 or reaches past the end.
\<close>

definition area_end :: "nat \<Rightarrow> nat \<Rightarrow> nat \<Rightarrow> nat" where
  "area_end start num cap = (if num = 0 \<or> start + num > cap then cap else start + num)"

lemma scrubdev_area:
  assumes "unat (sp_start s) + unat (sp_capacity s) < 2 ^ 64"
  shows "unat (sp_capacity (scrubdev_params cap s)) =
           area_end (unat (sp_start s)) (unat (sp_capacity s)) (unat cap)"
proof -
  have "unat (sp_start s + sp_capacity s) = unat (sp_start s) + unat (sp_capacity s)"
    by (rule unat_add_nowrap) (use assms in simp)
  then show ?thesis
    by (auto simp: scrubdev_params_def area_end_def word_less_nat_alt unat_eq_0)
qed

lemma area_end_le: "area_end start num cap \<le> cap"
  by (simp add: area_end_def)

text \<open>The sizes of a round in sectors are twice those of the parameters, in kilobytes.\<close>

definition sizes_fit :: "u64 \<Rightarrow> scrubparams \<Rightarrow> bool" where
  "sizes_fit cap s \<longleftrightarrow>
     (let e = area_end (unat (sp_start s)) (unat (sp_capacity s)) (unat cap)
      in sp_segsize s \<noteq> 0 \<and> sp_regsize s \<noteq> 0 \<and>
         unat (sp_start s) + unat (sp_capacity s) < 2 ^ 64 \<and>
         e + 2 * unat (sp_segsize s) \<le> 2 ^ 64 \<and> e + 2 * unat (sp_regsize s) \<le> 2 ^ 64 \<and>
         2 * unat (sp_segsize s) \<le> e \<and> unat (sp_start s) \<le> e)"

lemma sizes_fit_regions:
  assumes "sizes_fit cap s"
  shows "regions_fit (scrubdev_params cap s)"
    and "unat (sp_segsize (scrubdev_params cap s)) = 2 * unat (sp_segsize s)"
    and "unat (sp_regsize (scrubdev_params cap s)) = 2 * unat (sp_regsize s)"
proof -
  define e where "e = area_end (unat (sp_start s)) (unat (sp_capacity s)) (unat cap)"
  have fit: "sp_segsize s \<noteq> 0" "sp_regsize s \<noteq> 0" "e + 2 * unat (sp_segsize s) \<le> 2 ^ 64"
      "e + 2 * unat (sp_regsize s) \<le> 2 ^ 64" "2 * unat (sp_segsize s) \<le> e" "unat (sp_start s) \<le> e"
      "unat (sp_capacity (scrubdev_params cap s)) = e"
    using assms scrubdev_area [of s cap] by (simp_all add: sizes_fit_def e_def Let_def)
  have pos: "0 < unat (sp_segsize s)" "0 < unat (sp_regsize s)" using fit(1,2) by (simp_all add: unat_gt_0)
  have seg: "unat (sp_segsize s * 2) = unat (sp_segsize s) * 2"
    using unat_mult_nowrap [of "sp_segsize s" 2] fit(3,5) pos(1) by simp
  have reg: "unat (sp_regsize s * 2) = unat (sp_regsize s) * 2"
    using unat_mult_nowrap [of "sp_regsize s" 2] fit(4-6) pos by simp
  show "unat (sp_segsize (scrubdev_params cap s)) = 2 * unat (sp_segsize s)"
    "unat (sp_regsize (scrubdev_params cap s)) = 2 * unat (sp_regsize s)"
    using seg reg by (simp_all add: scrubdev_params_def)
  moreover have "sp_start (scrubdev_params cap s) = sp_start s" by (simp add: scrubdev_params_def)
  moreover have nz: "a \<noteq> 0" if "unat a = 2 * n" "0 < n" for a :: u64 and n using that by auto
  ultimately show "regions_fit (scrubdev_params cap s)"
    using fit pos by (simp add: regions_fit_def segments_fit_def word_le_nat_alt nz)
qed

context segreader
begin

lemma scrubdev_seq:
  assumes "ready w" and "sizes_fit (w_capacity w) (w_s w)" and "sp_strategy (w_s w) = SEQLSCRUB"
    and "e = area_end (unat (sp_start (w_s w))) (unat (sp_capacity (w_s w))) (unat (w_capacity w))"
  shows "\<exists>w' k. scrubdev rd w = Some (0, w') \<and> ready w' \<and> sp_threads (w_s w') = sp_threads (w_s w) \<and>
    round_reads (seq_plan (unat (sp_start (w_s w))) e (2 * unat (sp_segsize (w_s w)))) w w' k"
proof -
  let ?s = "scrubdev_params (w_capacity w) (w_s w)"
  let ?w = "w\<lparr>w_s := ?s\<rparr>"
  have r: "ready ?w" by (rule ready_params [OF assms(1)]) (simp_all add: scrubdev_params_def)
  have s: "sp_start ?s = sp_start (w_s w)" "sp_reqbound ?s = sp_reqbound (w_s w)" "sp_strategy ?s = 1"
    using assms(3) by (simp_all add: scrubdev_params_def)
  have c: "unat (sp_capacity ?s) = e"
    using scrubdev_area assms(2,4) by (simp add: sizes_fit_def Let_def)
  obtain w' k where "seqscrub rd ?w = Some (0, w')" "ready w'" "round_config w' = round_config ?w"
      "round_reads (seq_plan (unat (sp_start (w_s w))) e (2 * unat (sp_segsize (w_s w)))) ?w w' k"
    using seqscrub_reads [OF r] sizes_fit_regions [OF assms(2)] by (auto simp: s c regions_fit_def)
  moreover from this(3) have "sp_threads (w_s w') = sp_threads (w_s w)"
    by (auto dest: round_config_eq(8) simp: scrubdev_params_def)
  ultimately show ?thesis by (auto simp: scrubdev_def s round_reads_def)
qed

lemma scrubdev_stag:
  assumes "ready w" and "sizes_fit (w_capacity w) (w_s w)" and "sp_strategy (w_s w) = STAGSCRUB"
    and "e = area_end (unat (sp_start (w_s w))) (unat (sp_capacity (w_s w))) (unat (w_capacity w))"
  shows "\<exists>w' k. scrubdev rd w = Some (0, w') \<and> ready w' \<and> sp_threads (w_s w') = sp_threads (w_s w) \<and>
    round_reads (stag_plan (unat (sp_start (w_s w))) e (2 * unat (sp_regsize (w_s w)))
      (2 * unat (sp_segsize (w_s w)))) w w' k"
proof -
  let ?s = "scrubdev_params (w_capacity w) (w_s w)"
  let ?w = "w\<lparr>w_s := ?s\<rparr>"
  have r: "ready ?w" by (rule ready_params [OF assms(1)]) (simp_all add: scrubdev_params_def)
  have s: "sp_start ?s = sp_start (w_s w)" "sp_reqbound ?s = sp_reqbound (w_s w)" "sp_strategy ?s = 2"
    using assms(3) by (simp_all add: scrubdev_params_def)
  have c: "unat (sp_capacity ?s) = e"
    using scrubdev_area assms(2,4) by (simp add: sizes_fit_def Let_def)
  obtain w' k where "stgscrub rd ?w = Some (0, w')" "ready w'" "round_config w' = round_config ?w"
      "round_reads (stag_plan (unat (sp_start (w_s w))) e (2 * unat (sp_regsize (w_s w)))
        (2 * unat (sp_segsize (w_s w)))) ?w w' k"
    using stgscrub_reads [OF r] sizes_fit_regions [OF assms(2)] by (auto simp: s c)
  moreover from this(3) have "sp_threads (w_s w') = sp_threads (w_s w)"
    by (auto dest: round_config_eq(8) simp: scrubdev_params_def)
  ultimately show ?thesis by (auto simp: scrubdev_def s round_reads_def)
qed

end

section \<open>The threads implement the interface\<close>

lemma idle_world_params:
  "idle_world w \<Longrightarrow> sp_threads s = sp_threads (w_s w) \<Longrightarrow> sp_available s = sp_available (w_s w) \<Longrightarrow>
     idle_world (w\<lparr>w_s := s\<rparr>)"
  by (auto simp: idle_world_def)

interpretation threads: segreader "segread E" "\<lambda>w. idle_world w \<and> verify_total E" for E
proof
  show "\<exists>w'. segread E pos num w = Some (0, w') \<and> (idle_world w' \<and> verify_total E) \<and>
      round_config w' = round_config w \<and> w_cmds w' = w_cmds w @ chunks pos num"
    if "idle_world w \<and> verify_total E" for w pos num
    using segread_serves [of E w pos num] that by blast
qed (use idle_world_params in blast)

text \<open>A reader of a scrubber that nobody aborts reads the whole plan.\<close>

locale quiet_segreader = segreader +
  assumes quiet: "ready w \<Longrightarrow> ds_state (w_sc w) \<noteq> STATE_ABORT"
begin

lemma reads_all:
  assumes "ready w'" and "round_reads segs w w' k" and "sp_reqbound (w_s w) = 0"
  shows "w_cmds w' = w_cmds w @ plan_cmds segs"
  using assms quiet [OF assms(1)] by (auto simp: round_reads_def)

end

definition no_abort :: "scrub_env \<Rightarrow> bool" where
  "no_abort E \<longleftrightarrow> (\<forall>n sc. ds_state sc \<noteq> STATE_ABORT \<longrightarrow> ds_state (e_sysfs E n sc) \<noteq> STATE_ABORT)"

lemma no_abort_keeps: "no_abort E \<Longrightarrow> sysfs_keeps E (\<lambda>sc. ds_state sc \<noteq> STATE_ABORT)"
  by (simp add: no_abort_def sysfs_keeps_def)

text \<open>The last conjunct counts the requests of the round from the \<open>c\<close>-th command on.\<close>

definition quiet_world :: "scrub_env \<Rightarrow> u64 \<Rightarrow> scrub_world \<Rightarrow> bool" where
  "quiet_world E c w \<longleftrightarrow> idle_world w \<and> verify_total E \<and> no_abort E \<and>
     ds_state (w_sc w) \<noteq> STATE_ABORT \<and> requests_since w = c"

interpretation quiet_threads: quiet_segreader "segread E" "quiet_world E c" for E c
proof
  fix w pos num
  assume q: "quiet_world E c w"
  then obtain w' where "segread E pos num w = Some (0, w')" "idle_world w'"
      "round_config w' = round_config w" "w_cmds w' = w_cmds w @ chunks pos num"
      "requests_since w' = requests_since w"
    using segread_serves unfolding quiet_world_def by blast
  with q segread_keeps [OF no_abort_keeps] show "\<exists>w'. segread E pos num w = Some (0, w') \<and> quiet_world E c w' \<and>
      round_config w' = round_config w \<and> w_cmds w' = w_cmds w @ chunks pos num"
    unfolding quiet_world_def by metis
next
  show "quiet_world E c (w\<lparr>w_s := s\<rparr>)"
    if "quiet_world E c w" "sp_threads s = sp_threads (w_s w)" "sp_available s = sp_available (w_s w)"
      "sp_reqcount s = sp_reqcount (w_s w)" for w s
    using that idle_world_params by (auto simp: quiet_world_def requests_since_def)
qed (simp add: quiet_world_def)

section \<open>Properties\<close>


lemma sample_fits [simp]: "segments_fit (w_s sample_world)"
  by (simp add: segments_fit_def sample_world_def zero_params_def)






text \<open>\<open>lceil\<close> is the quotient rounded up, and traps exactly on a zero divisor.\<close>

theorem lceil_rounds_up:
  "lceil whole part = (if part = 0 then None
     else Some (of_nat (ceil_div (unat whole) (unat part))))"
proof (cases "part = 0")
  case False
  then obtain r where r: "lceil whole part = Some r" "ceil_div (unat whole) (unat part) = unat r"
    using lceil_correct [OF False, of whole] by metis
  with False show ?thesis by simp
qed (simp add: lceil_def)



end
