(* ===== verification/Scrub_Core.thy ===== *)
theory Scrub_Core
  imports Scrub_Strategy "HOL-Library.Signed_Division"
begin

text \<open>
  The scrubber task, \<open>scrubber\<close> of \<^verbatim>\<open>block/scrub_core.c\<close>: copying the parameters,
  starting the threads, the warm-up read, the scrub, stopping the threads and publishing
  the statistics. \<open>scrub_round\<close> is the body of the loop for the state \<open>on\<close>. Setting the
  I/O priority of the threads (it concerns the CFQ scheduler only) and the messages are
  not modelled; \<open>kmalloc\<close> is taken to succeed.
\<close>

section \<open>One round\<close>

definition strategy_code :: "string \<Rightarrow> int \<Rightarrow> int" where
  "strategy_code name old =
     (if name = ''seql'' then SEQLSCRUB
      else if name = ''stag'' then STAGSCRUB
      else if name = ''fixed'' then FIXEDSCRUB
      else old)"

definition priority_code :: "string \<Rightarrow> int \<Rightarrow> int" where
  "priority_code name old =
     (if name = ''realtime'' then RTIMEPRIO
      else if name = ''idlechk'' then IDCHKPRIO
      else old)"

definition copy_params :: "disk_scrubber \<Rightarrow> scrubparams \<Rightarrow> scrubparams" where
  "copy_params sc s =
     s\<lparr>sp_reqbound := ds_reqbound sc,
       sp_strategy := strategy_code (ds_strategy sc) (sp_strategy s),
       sp_priority := priority_code (ds_priority sc) (sp_priority s),
       sp_segsize := ds_segsize sc, sp_regsize := ds_regsize sc, sp_threads := ds_threads sc,
       sp_dpo := ds_dpo sc, sp_vrprotect := ds_vrprotect sc, sp_verbose := ds_verbose sc,
       sp_timed := ds_timed sc, sp_capacity := ds_scount sc, sp_start := ds_spoint sc,
       sp_delayms := ds_delayms sc\<rparr>"

definition reset_stats :: "timespec \<Rightarrow> scrub_world \<Rightarrow> scrub_world" where
  "reset_stats now w =
     w\<lparr>w_sc := (w_sc w)\<lparr>ds_ttime_ms := 0, ds_resptime_us := 0\<rparr>,
       w_s := (w_s w)\<lparr>sp_ttime_ms := 0, sp_resptime_us := 0, sp_reqcount := 0, sp_available := 0,
                      sp_read_errs := 0, sp_idlestamp := now\<rparr>\<rparr>"

definition init_threads :: "scrub_world \<Rightarrow> scrub_world" where
  "init_threads w =
     (let n = nat (sp_threads (w_s w)) in
      w\<lparr>w_barrier := replicate n False,
        w_tdata := map (\<lambda>i. \<lparr>td_pos = 0, td_count = 0, td_state = TINIT, td_tid = i\<rparr>) [0 ..< n]\<rparr>)"

primrec start_threads :: "scrub_env \<Rightarrow> nat list \<Rightarrow> scrub_world \<Rightarrow> scrub_world option" where
  "start_threads E [] w = Some w"
| "start_threads E (i # is) w =
     Option.bind (kthread_segread E False i w) (\<lambda>(_, w'). start_threads E is w')"

definition warm_up :: "reader \<Rightarrow> scrub_world \<Rightarrow> scrub_world option" where
  "warm_up rd w =
     (let s = w_s w in
      if sp_capacity s \<noteq> 0 \<and> sp_capacity s < sp_segsize s then Some w
      else map_option snd (rd (sp_start s + sp_segsize s) (sp_segsize s) w))"

text \<open>
  \<open>kthread_stop\<close> wakes a thread up and returns when it has left its loop, with its return
  value 0.
\<close>

primrec stop_threads :: "scrub_env \<Rightarrow> nat list \<Rightarrow> scrub_world \<Rightarrow> scrub_world option" where
  "stop_threads E [] w = Some w"
| "stop_threads E (i # is) w =
     Option.bind (thread_loop E True i w) (\<lambda>(_, w'). stop_threads E is w')"

definition read_clock :: "scrub_env \<Rightarrow> timeval \<Rightarrow> scrub_world \<Rightarrow> timeval \<times> scrub_world" where
  "read_clock E old w =
     (if sp_timed (w_s w) \<noteq> 0 then (e_clock E (w_ticks w), w\<lparr>w_ticks := w_ticks w + 1\<rparr>) else (old, w))"

definition record_time :: "scrub_env \<Rightarrow> timeval \<Rightarrow> scrub_world \<Rightarrow> scrub_world" where
  "record_time E ta w =
     (if sp_timed (w_s w) \<noteq> 0
      then w\<lparr>w_ticks := w_ticks w + 1,
             w_s := (w_s w)\<lparr>sp_ttime_ms :=
               of_int (usecs_between ta (e_clock E (w_ticks w)) sdiv 1000)\<rparr>\<rparr>
      else w)"

definition publish_stats :: "scrub_world \<Rightarrow> scrub_world" where
  "publish_stats w =
     (let s = w_s w; sc = w_sc w in
      w\<lparr>w_sc := sc\<lparr>
          ds_ttime_ms := (if sp_ttime_ms s \<noteq> 0 then sp_ttime_ms s else ds_ttime_ms sc),
          ds_resptime_us := (if sp_reqcount s \<noteq> 0 then sp_resptime_us s div sp_reqcount s
                             else ds_resptime_us sc),
          ds_reqcount := sp_reqcount s\<rparr>\<rparr>)"

definition begin_round :: "scrub_env \<Rightarrow> scrub_world \<Rightarrow> scrub_world" where
  "begin_round E w =
     init_threads (reset_stats (e_kernel_time E (w_ticks w)) (w\<lparr>w_s := copy_params (w_sc w) (w_s w)\<rparr>))"

definition scrub_round :: "scrub_env \<Rightarrow> scrub_world \<Rightarrow> scrub_world option" where
  "scrub_round E w = do {
     let w1 = begin_round E w;
     let n = nat (sp_threads (w_s w1));
     w2 \<leftarrow> start_threads E [0 ..< n] w1;
     w3 \<leftarrow> warm_up (segread E) w2;
     let (ta, w4) = read_clock E \<lparr>tv_sec = 0, tv_usec = 0\<rparr> w3;
     (ret, w5) \<leftarrow> scrubdev (segread E) w4;
     w6 \<leftarrow> stop_threads E [0 ..< n] w5;
     Some (publish_stats (record_time E ta w6)) }"

section \<open>The task\<close>

text \<open>
  \<open>wake n\<close> says what happens at the \<open>n\<close>-th pass of the loop that finds the scrubber not
  in state \<open>on\<close>: is the task asked to stop, and what did sysfs writes make of the scrubber
  by the time \<open>schedule\<close> returned.
\<close>

type_synonym wake = "nat \<Rightarrow> bool \<times> (disk_scrubber \<Rightarrow> disk_scrubber)"

partial_function (option) scrubber_loop ::
    "scrub_env \<Rightarrow> wake \<Rightarrow> nat \<Rightarrow> scrub_world \<Rightarrow> (int \<times> scrub_world) option" where
  "scrubber_loop E wake n w =
     (if ds_state (w_sc w) = STATE_ON
      then Option.bind (scrub_round E w) (scrubber_loop E wake n)
      else if fst (wake n) then Some (0, w)
      else scrubber_loop E wake (n + 1) (w\<lparr>w_sc := snd (wake n) (w_sc w)\<rparr>))"

definition scrubber :: "scrub_env \<Rightarrow> wake \<Rightarrow> scrub_world \<Rightarrow> (int \<times> scrub_world) option" where
  "scrubber E wake w = scrubber_loop E wake 0 (w\<lparr>w_s := zero_params\<rparr>)"

section \<open>Starting and stopping the threads\<close>

text \<open>A new thread reports itself idle, passes its open barrier once and goes to sleep.\<close>

lemma fresh_thread:
  assumes "tid < length (w_tdata w)" and "length (w_barrier w) = length (w_tdata w)"
    and "\<not> w_barrier w ! tid"
  shows "kthread_segread E False tid w = Some (False, w\<lparr>
      w_tdata := (w_tdata w)[tid := (w_tdata w ! tid)\<lparr>td_state := TIDLE\<rparr>],
      w_barrier := (w_barrier w)[tid := True],
      w_s := (w_s w)\<lparr>sp_available := sp_available (w_s w) + 1\<rparr>\<rparr>)"
proof -
  let ?w = "(thread_start tid w)\<lparr>w_barrier := (w_barrier w)[tid := True]\<rparr>"
  have "thread_action E tid ?w = Some ?w"
    using assms(1) by (simp add: thread_action_def thread_start_def add_available_def td_set_state_def)
  moreover have "thread_loop E False tid ?w = Some (False, ?w)"
    by (rule thread_sleeps) (use assms(1,2) in simp_all)
  ultimately have "thread_loop E False tid (thread_start tid w) = Some (False, ?w)"
    using assms
    by (subst thread_loop.simps) (simp add: thread_start_def add_available_def td_set_state_def)
  then show ?thesis
    by (simp add: kthread_segread_def thread_start_def add_available_def td_set_state_def)
qed

lemma start_threads_idle:
  assumes "length (w_tdata w) = n" and "length (w_barrier w) = n" and "k \<le> n"
    and "\<And>i. k \<le> i \<Longrightarrow> i < n \<Longrightarrow> \<not> w_barrier w ! i"
    and "\<And>i. i < k \<Longrightarrow> w_barrier w ! i \<and> td_state (w_tdata w ! i) = TIDLE"
  shows "\<exists>td. start_threads E [k ..< n] w = Some (w\<lparr>w_tdata := td, w_barrier := replicate n True,
      w_s := (w_s w)\<lparr>sp_available := sp_available (w_s w) + int (n - k)\<rparr>\<rparr>) \<and>
    length td = n \<and> (\<forall>d \<in> set td. td_state d = TIDLE)"
  using assms
proof (induction "n - k" arbitrary: k w)
  case 0
  then have "k = n" by simp
  moreover have "w_barrier w = replicate n True"
    using 0 by (intro nth_equalityI) auto
  ultimately show ?case
    using 0 by (intro exI [of _ "w_tdata w"]) (auto simp: in_set_conv_nth)
next
  case (Suc m)
  let ?w = "w\<lparr>w_tdata := (w_tdata w)[k := (w_tdata w ! k)\<lparr>td_state := TIDLE\<rparr>],
      w_barrier := (w_barrier w)[k := True],
      w_s := (w_s w)\<lparr>sp_available := sp_available (w_s w) + 1\<rparr>\<rparr>"
  have k: "k < n" using Suc.hyps(2) by simp
  have start: "kthread_segread E False k w = Some (False, ?w)"
    using Suc.prems k by (intro fresh_thread) auto
  have "\<exists>td. start_threads E [Suc k ..< n] ?w = Some (?w\<lparr>w_tdata := td, w_barrier := replicate n True,
        w_s := (w_s ?w)\<lparr>sp_available := sp_available (w_s ?w) + int (n - Suc k)\<rparr>\<rparr>) \<and>
      length td = n \<and> (\<forall>d \<in> set td. td_state d = TIDLE)"
  proof (rule Suc.hyps(1))
    show "w_barrier ?w ! i \<and> td_state (w_tdata ?w ! i) = TIDLE" if "i < Suc k" for i
      using that Suc.prems k by (cases "i = k") auto
  qed (use Suc.hyps(2) Suc.prems k in auto)
  then obtain td where td: "start_threads E [Suc k ..< n] ?w = Some (?w\<lparr>w_tdata := td, w_barrier := replicate n True,
        w_s := (w_s ?w)\<lparr>sp_available := sp_available (w_s ?w) + int (n - Suc k)\<rparr>\<rparr>)"
      "length td = n" "\<forall>d \<in> set td. td_state d = TIDLE"
    by blast
  have "1 + int (n - Suc k) = int (n - k)" using k by simp
  then have "sp_available (w_s w) + 1 + int (n - Suc k) = sp_available (w_s w) + int (n - k)" by simp
  with td show ?case
    using k start by (intro exI [of _ td]) (simp add: upt_conv_Cons)
qed

lemma stop_threads_exit:
  assumes "\<And>i. i \<in> set is \<Longrightarrow> i < length (w_barrier w)"
  shows "\<exists>b. stop_threads E is w = Some (w\<lparr>w_barrier := b\<rparr>)"
  using assms
proof (induction "is" arbitrary: w)
  case Nil
  show ?case by (intro exI [of _ "w_barrier w"]) simp
next
  case (Cons i "is")
  have "thread_loop E True i w = Some (True, w\<lparr>w_barrier := (w_barrier w)[i := True]\<rparr>)"
    using Cons.prems by (subst thread_loop.simps) simp
  with Cons.IH [of "w\<lparr>w_barrier := (w_barrier w)[i := True]\<rparr>"] Cons.prems show ?case by auto
qed

text \<open>With at least one thread, all threads are idle when the warm-up read is due.\<close>

lemma round_begins:
  assumes "0 < ds_threads (w_sc w)"
  shows "\<exists>w2. start_threads E [0 ..< nat (ds_threads (w_sc w))] (begin_round E w) = Some w2 \<and>
    idle_world w2 \<and> w_cmds w2 = w_cmds w \<and> w_capacity w2 = w_capacity w \<and>
    w_sc w2 = (w_sc w)\<lparr>ds_ttime_ms := 0, ds_resptime_us := 0\<rparr> \<and>
    sp_reqcount (w_s w2) = 0 \<and>
    w_s w2 = (copy_params (w_sc w) (w_s w))\<lparr>sp_ttime_ms := 0, sp_resptime_us := 0, sp_reqcount := 0,
      sp_available := ds_threads (w_sc w), sp_read_errs := 0,
      sp_idlestamp := e_kernel_time E (w_ticks w)\<rparr>"
proof -
  let ?n = "nat (ds_threads (w_sc w))" and ?w = "begin_round E w"
  have w: "length (w_tdata ?w) = ?n" "length (w_barrier ?w) = ?n" "\<And>i. i < ?n \<Longrightarrow> \<not> w_barrier ?w ! i"
      "w_s ?w = (copy_params (w_sc w) (w_s w))\<lparr>sp_ttime_ms := 0, sp_resptime_us := 0, sp_reqcount := 0,
         sp_available := 0, sp_read_errs := 0, sp_idlestamp := e_kernel_time E (w_ticks w)\<rparr>"
      "w_cmds ?w = w_cmds w" "w_capacity ?w = w_capacity w"
      "w_sc ?w = (w_sc w)\<lparr>ds_ttime_ms := 0, ds_resptime_us := 0\<rparr>"
    by (simp_all add: begin_round_def init_threads_def reset_stats_def copy_params_def Let_def)
  then obtain td where "start_threads E [0 ..< ?n] ?w = Some (?w\<lparr>w_tdata := td, w_barrier := replicate ?n True,
        w_s := (w_s ?w)\<lparr>sp_available := sp_available (w_s ?w) + int (?n - 0)\<rparr>\<rparr>)"
      "length td = ?n" "\<forall>d \<in> set td. td_state d = TIDLE"
    using start_threads_idle [of ?w ?n 0 E] by auto
  with w assms show ?thesis
    by (simp add: idle_world_def copy_params_def)
qed

section \<open>What a round reads\<close>

text \<open>The parameters with which \<open>scrubdev\<close> is entered.\<close>

definition round_params :: "disk_scrubber \<Rightarrow> scrubparams" where
  "round_params sc = copy_params sc zero_params"

definition area_of :: "disk_scrubber \<Rightarrow> u64 \<Rightarrow> nat" where
  "area_of sc cap = area_end (unat (ds_spoint sc)) (unat (ds_scount sc)) (unat cap)"

text \<open>
  A scrubber that can run a round: it has a thread, its sizes fit the disk, and the
  warm-up read is not skipped.
\<close>

definition round_ok :: "disk_scrubber \<Rightarrow> u64 \<Rightarrow> bool" where
  "round_ok sc cap \<longleftrightarrow> 0 < ds_threads sc \<and> sizes_fit cap (round_params sc) \<and>
     (ds_scount sc = 0 \<or> ds_segsize sc \<le> ds_scount sc)"

definition warm_up_cmds :: "disk_scrubber \<Rightarrow> (u64 \<times> u32) list" where
  "warm_up_cmds sc = chunks (ds_spoint sc + ds_segsize sc) (ds_segsize sc)"

definition quiet_env :: "scrub_env \<Rightarrow> bool" where
  "quiet_env E \<longleftrightarrow> verify_total E \<and> no_abort E"

lemma quiet_world_ticks [simp]: "quiet_world E c (w\<lparr>w_ticks := t\<rparr>) = quiet_world E c w"
  by (simp add: quiet_world_def idle_world_def requests_since_def)

text \<open>The world in which a round from \<open>w\<close> enters \<open>scrubdev\<close>.\<close>

definition round_entry :: "scrub_env \<Rightarrow> scrub_world \<Rightarrow> scrub_world \<Rightarrow> bool" where
  "round_entry E w w4 \<longleftrightarrow> quiet_world E (- of_nat (length (w_cmds w))) w4 \<and>
     w_capacity w4 = w_capacity w \<and> w_cmds w4 = w_cmds w @ warm_up_cmds (w_sc w) \<and>
     sp_segsize (w_s w4) = ds_segsize (w_sc w) \<and> sp_regsize (w_s w4) = ds_regsize (w_sc w) \<and>
     sp_start (w_s w4) = ds_spoint (w_sc w) \<and> sp_capacity (w_s w4) = ds_scount (w_sc w) \<and>
     sp_reqbound (w_s w4) = ds_reqbound (w_sc w) \<and> sp_threads (w_s w4) = ds_threads (w_sc w) \<and>
     sp_strategy (w_s w4) = strategy_code (ds_strategy (w_sc w)) (sp_strategy (w_s w))"

text \<open>
  The frame of a round around \<open>scrubdev\<close>: the threads are started and the warm-up read is
  done before, the threads are stopped and the statistics are published after it.
\<close>

lemma scrub_round_frame:
  assumes env: "quiet_env E" and state: "ds_state (w_sc w) \<noteq> STATE_ABORT"
    and ok: "round_ok (w_sc w) (w_capacity w)"
    and dev: "\<And>w4. round_entry E w w4 \<Longrightarrow> \<exists>r w5. scrubdev (segread E) w4 = Some (r, w5) \<and>
       quiet_world E (- of_nat (length (w_cmds w))) w5 \<and> sp_threads (w_s w5) = sp_threads (w_s w4) \<and>
       Q w4 w5"
  shows "\<exists>w4 w5 b ta. round_entry E w w4 \<and> Q w4 w5 \<and>
    quiet_world E (- of_nat (length (w_cmds w))) w5 \<and>
    scrub_round E w = Some (publish_stats (record_time E ta (w5\<lparr>w_barrier := b\<rparr>))) \<and>
    (ds_timed (w_sc w) = 0 \<longrightarrow> ta = \<lparr>tv_sec = 0, tv_usec = 0\<rparr>)"
proof -
  let ?c = "- of_nat (length (w_cmds w)) :: u64" and ?sc = "w_sc w"
  let ?n = "nat (ds_threads ?sc)"
  have threads: "0 < ds_threads ?sc" and warm: "ds_scount ?sc = 0 \<or> ds_segsize ?sc \<le> ds_scount ?sc"
    using ok by (simp_all add: round_ok_def)
  obtain w2 where w2: "start_threads E [0 ..< ?n] (begin_round E w) = Some w2" "idle_world w2"
      "w_cmds w2 = w_cmds w" "w_capacity w2 = w_capacity w"
      "w_sc w2 = ?sc\<lparr>ds_ttime_ms := 0, ds_resptime_us := 0\<rparr>" "sp_reqcount (w_s w2) = 0"
      "w_s w2 = (copy_params ?sc (w_s w))\<lparr>sp_ttime_ms := 0, sp_resptime_us := 0, sp_reqcount := 0,
        sp_available := ds_threads ?sc, sp_read_errs := 0, sp_idlestamp := e_kernel_time E (w_ticks w)\<rparr>"
    using round_begins [OF threads] by blast
  have q2: "quiet_world E ?c w2"
    using env state w2(2,3,5,6) by (simp add: quiet_world_def quiet_env_def requests_since_def)
  obtain w3 where w3: "segread E (ds_spoint ?sc + ds_segsize ?sc) (ds_segsize ?sc) w2 = Some (0, w3)"
      "quiet_world E ?c w3" "round_config w3 = round_config w2" "w_cmds w3 = w_cmds w @ warm_up_cmds ?sc"
    using quiet_threads.reads [OF q2] w2(3) unfolding warm_up_cmds_def by metis
  have wu: "warm_up (segread E) w2 = Some w3"
    using w3(1) warm w2(7) by (auto simp: warm_up_def Let_def copy_params_def)
  obtain ta w4 where w4: "read_clock E \<lparr>tv_sec = 0, tv_usec = 0\<rparr> w3 = (ta, w4)" by fastforce
  then obtain t where w4_eq: "w4 = w3\<lparr>w_ticks := t\<rparr>"
    by (auto simp: read_clock_def split: if_splits) (metis scrub_world.surjective scrub_world.update_convs(7))
  note cfg = round_config_eq [OF w3(3)]
  have ta: "ds_timed ?sc = 0 \<longrightarrow> ta = \<lparr>tv_sec = 0, tv_usec = 0\<rparr>"
    using w4 by (auto simp: read_clock_def cfg w2(7) copy_params_def)
  have entry: "round_entry E w w4"
    using w3(2,4) w2(4) by (simp add: round_entry_def w4_eq cfg w2(7) copy_params_def)
  obtain r w5 where w5: "scrubdev (segread E) w4 = Some (r, w5)" "quiet_world E ?c w5"
      "sp_threads (w_s w5) = ds_threads ?sc" "Q w4 w5"
    using dev [OF entry] entry by (auto simp: round_entry_def)
  have len: "length (w_barrier w5) = ?n"
    using w5(2,3) by (auto simp: quiet_world_def idle_world_def)
  obtain b where w6: "stop_threads E [0 ..< ?n] w5 = Some (w5\<lparr>w_barrier := b\<rparr>)"
    using stop_threads_exit [of "[0 ..< ?n]" w5 E] len by auto
  have n: "nat (sp_threads (w_s (begin_round E w))) = ?n"
    by (simp add: begin_round_def init_threads_def reset_stats_def copy_params_def Let_def)
  have "scrub_round E w = Some (publish_stats (record_time E ta (w5\<lparr>w_barrier := b\<rparr>)))"
    unfolding scrub_round_def Let_def n using w2(1) wu w4 w5(1) w6 by simp
  with entry w5(2,4) ta show ?thesis by blast
qed

lemma publish_keeps [simp]:
  "w_cmds (publish_stats (record_time E ta (w\<lparr>w_barrier := b\<rparr>))) = w_cmds w"
  "ds_reqcount (w_sc (publish_stats (record_time E ta (w\<lparr>w_barrier := b\<rparr>)))) = sp_reqcount (w_s w)"
  by (simp_all add: publish_stats_def record_time_def Let_def)

text \<open>A round whose strategy sends \<open>cmds\<close> publishes their number, with that of the warm-up read.\<close>

lemma scrub_round_sends:
  assumes "quiet_env E" and "ds_state (w_sc w) \<noteq> STATE_ABORT" and "round_ok (w_sc w) (w_capacity w)"
    and dev: "\<And>w4. round_entry E w w4 \<Longrightarrow> \<exists>r w5. scrubdev (segread E) w4 = Some (r, w5) \<and>
       quiet_world E (- of_nat (length (w_cmds w))) w5 \<and> sp_threads (w_s w5) = sp_threads (w_s w4) \<and>
       w_cmds w5 = w_cmds w4 @ cmds"
  shows "\<exists>w'. scrub_round E w = Some w' \<and> w_cmds w' = w_cmds w @ warm_up_cmds (w_sc w) @ cmds \<and>
    ds_reqcount (w_sc w') = of_nat (length (warm_up_cmds (w_sc w) @ cmds))"
proof -
  let ?c = "- of_nat (length (w_cmds w)) :: u64"
  obtain w4 w5 b ta where w4: "round_entry E w w4" and cmds: "w_cmds w5 = w_cmds w4 @ cmds"
    and q: "quiet_world E ?c w5"
    and r: "scrub_round E w = Some (publish_stats (record_time E ta (w5\<lparr>w_barrier := b\<rparr>)))"
    using scrub_round_frame [OF assms] by blast
  have all: "w_cmds w5 = w_cmds w @ warm_up_cmds (w_sc w) @ cmds"
    using cmds w4 by (simp add: round_entry_def)
  have "sp_reqcount (w_s w5) = ?c + of_nat (length (w_cmds w5))"
    using q by (simp add: quiet_world_def requests_since_def) (metis diff_add_cancel uminus_add_conv_diff)
  also have "\<dots> = of_nat (length (warm_up_cmds (w_sc w) @ cmds))" by (simp add: all)
  finally show ?thesis using r all by simp
qed

lemma sizes_fit_cong:
  assumes "sp_segsize s = sp_segsize s'" "sp_regsize s = sp_regsize s'" "sp_start s = sp_start s'"
    "sp_capacity s = sp_capacity s'"
  shows "sizes_fit cap s = sizes_fit cap s'"
  by (simp add: sizes_fit_def assms)

lemma round_entry_fits:
  assumes "round_ok (w_sc w) (w_capacity w)" and "round_entry E w w4"
  shows "sizes_fit (w_capacity w4) (w_s w4)"
  using assms sizes_fit_cong [of "w_s w4" "round_params (w_sc w)"]
  by (simp add: round_entry_def round_ok_def round_params_def copy_params_def)

lemma area_of_less: "area_of sc cap < 2 ^ 64"
proof -
  have "area_of sc cap \<le> unat cap" by (simp add: area_of_def area_end_le)
  then show ?thesis using unat_u64_less [of cap] by linarith
qed

lemma scrub_round_seq:
  assumes "quiet_env E" and "ds_state (w_sc w) \<noteq> STATE_ABORT" and ok: "round_ok (w_sc w) (w_capacity w)"
    and strat: "ds_strategy (w_sc w) = ''seql''" and bound: "ds_reqbound (w_sc w) = 0"
  shows "\<exists>w' cmds. scrub_round E w = Some w' \<and> w_cmds w' = w_cmds w @ warm_up_cmds (w_sc w) @ cmds \<and>
    cmds_sectors cmds = [unat (ds_spoint (w_sc w)) ..< area_of (w_sc w) (w_capacity w)] \<and>
    (\<forall>c \<in> set cmds. unat (snd c) \<le> 65535) \<and>
    ds_reqcount (w_sc w') = of_nat (length (warm_up_cmds (w_sc w) @ cmds))"
proof -
  let ?plan = "seq_plan (unat (ds_spoint (w_sc w))) (area_of (w_sc w) (w_capacity w))
      (2 * unat (ds_segsize (w_sc w)))"
  have "\<exists>w'. scrub_round E w = Some w' \<and> w_cmds w' = w_cmds w @ warm_up_cmds (w_sc w) @ plan_cmds ?plan \<and>
      ds_reqcount (w_sc w') = of_nat (length (warm_up_cmds (w_sc w) @ plan_cmds ?plan))"
  proof (rule scrub_round_sends [OF assms(1-3)])
    fix w4
    assume w4: "round_entry E w w4"
    then have q: "quiet_world E (- of_nat (length (w_cmds w))) w4" by (simp add: round_entry_def)
    obtain w5 k where w5: "scrubdev (segread E) w4 = Some (0, w5)"
        "quiet_world E (- of_nat (length (w_cmds w))) w5" "sp_threads (w_s w5) = sp_threads (w_s w4)"
        "round_reads ?plan w4 w5 k"
      using quiet_threads.scrubdev_seq [OF q round_entry_fits [OF ok w4] _ refl] w4 strat
      by (auto simp: round_entry_def strategy_code_def area_of_def)
    moreover have "w_cmds w5 = w_cmds w4 @ plan_cmds ?plan"
      by (rule quiet_threads.reads_all [OF w5(2,4)]) (use w4 bound in \<open>simp add: round_entry_def\<close>)
    ultimately show "\<exists>r w5. scrubdev (segread E) w4 = Some (r, w5) \<and>
        quiet_world E (- of_nat (length (w_cmds w))) w5 \<and> sp_threads (w_s w5) = sp_threads (w_s w4) \<and>
        w_cmds w5 = w_cmds w4 @ plan_cmds ?plan"
      by blast
  qed
  moreover have "cmds_sectors (plan_cmds ?plan) =
      [unat (ds_spoint (w_sc w)) ..< area_of (w_sc w) (w_capacity w)]"
    using plan_cmds_sectors [OF seq_plan_within area_of_less] ok seq_plan_sectors
    by (simp add: round_ok_def sizes_fit_def round_params_def copy_params_def Let_def unat_gt_0)
  ultimately show ?thesis using plan_cmds_bounded by blast
qed

lemma scrub_round_stag:
  assumes "quiet_env E" and "ds_state (w_sc w) \<noteq> STATE_ABORT" and ok: "round_ok (w_sc w) (w_capacity w)"
    and strat: "ds_strategy (w_sc w) = ''stag''" and bound: "ds_reqbound (w_sc w) = 0"
  shows "\<exists>w' cmds. scrub_round E w = Some w' \<and> w_cmds w' = w_cmds w @ warm_up_cmds (w_sc w) @ cmds \<and>
    set (cmds_sectors cmds) = {unat (ds_spoint (w_sc w)) ..< area_of (w_sc w) (w_capacity w)} \<and>
    (unat (ds_segsize (w_sc w)) dvd unat (ds_regsize (w_sc w)) \<longrightarrow> distinct (cmds_sectors cmds)) \<and>
    ds_reqcount (w_sc w') = of_nat (length (warm_up_cmds (w_sc w) @ cmds))"
proof -
  let ?plan = "stag_plan (unat (ds_spoint (w_sc w))) (area_of (w_sc w) (w_capacity w))
      (2 * unat (ds_regsize (w_sc w))) (2 * unat (ds_segsize (w_sc w)))"
  have "\<exists>w'. scrub_round E w = Some w' \<and> w_cmds w' = w_cmds w @ warm_up_cmds (w_sc w) @ plan_cmds ?plan \<and>
      ds_reqcount (w_sc w') = of_nat (length (warm_up_cmds (w_sc w) @ plan_cmds ?plan))"
  proof (rule scrub_round_sends [OF assms(1-3)])
    fix w4
    assume w4: "round_entry E w w4"
    then have q: "quiet_world E (- of_nat (length (w_cmds w))) w4" by (simp add: round_entry_def)
    obtain w5 k where w5: "scrubdev (segread E) w4 = Some (0, w5)"
        "quiet_world E (- of_nat (length (w_cmds w))) w5" "sp_threads (w_s w5) = sp_threads (w_s w4)"
        "round_reads ?plan w4 w5 k"
      using quiet_threads.scrubdev_stag [OF q round_entry_fits [OF ok w4] _ refl] w4 strat
      by (auto simp: round_entry_def strategy_code_def area_of_def)
    moreover have "w_cmds w5 = w_cmds w4 @ plan_cmds ?plan"
      by (rule quiet_threads.reads_all [OF w5(2,4)]) (use w4 bound in \<open>simp add: round_entry_def\<close>)
    ultimately show "\<exists>r w5. scrubdev (segread E) w4 = Some (r, w5) \<and>
        quiet_world E (- of_nat (length (w_cmds w))) w5 \<and> sp_threads (w_s w5) = sp_threads (w_s w4) \<and>
        w_cmds w5 = w_cmds w4 @ plan_cmds ?plan"
      by blast
  qed
  moreover have "0 < 2 * unat (ds_regsize (w_sc w))" "0 < 2 * unat (ds_segsize (w_sc w))"
    using ok by (simp_all add: round_ok_def sizes_fit_def round_params_def copy_params_def Let_def unat_gt_0)
  moreover have "cmds_sectors (plan_cmds ?plan) = plan_sectors ?plan"
    by (rule plan_cmds_sectors [OF stag_plan_within area_of_less])
  ultimately show ?thesis using stag_covers stag_once by fastforce
qed

section \<open>Properties\<close>

text \<open>A scrubber in state \<open>on\<close>, with the default parameters, on a disk of 100000000 sectors.\<close>

definition on_world :: "string \<Rightarrow> scrub_world" where
  "on_world strategy = \<lparr>w_sc = (default_scrubber ''sda'')\<lparr>ds_state := STATE_ON, ds_strategy := strategy\<rparr>,
     w_capacity = 100000000, w_s = zero_params, w_tdata = [], w_barrier = [], w_cmds = [], w_ticks = 0\<rparr>"

lemma on_world_ok [simp]:
  "round_ok (w_sc (on_world st)) (w_capacity (on_world st))" "ds_state (w_sc (on_world st)) \<noteq> STATE_ABORT"
  by (simp_all add: on_world_def round_ok_def sizes_fit_def round_params_def copy_params_def
      default_scrubber_def area_end_def zero_params_def Let_def)

lemma sample_quiet [simp]: "quiet_env sample_scrub_env"
  by (simp add: quiet_env_def no_abort_def) (simp add: sample_scrub_env_def)







text \<open>
  C20: As long as the scrubber is not switched on, the task only sleeps: it ends, with the
  return value 0, at the first wake-up that asks it to stop, and no command has been sent.
\<close>

theorem idle_task_stops:
  assumes "ds_state (w_sc w) \<noteq> STATE_ON"
    and "\<And>i sc. i < n \<Longrightarrow> \<not> fst (wake i) \<and> (ds_state sc \<noteq> STATE_ON \<longrightarrow> ds_state (snd (wake i) sc) \<noteq> STATE_ON)"
    and "fst (wake n)"
  shows "\<exists>w'. scrubber E wake w = Some (0, w') \<and> w_cmds w' = w_cmds w"
proof -
  have "\<exists>w'. scrubber_loop E wake (n - k) w = Some (0, w') \<and> w_cmds w' = w_cmds w"
    if "k \<le> n" "ds_state (w_sc w) \<noteq> STATE_ON" for k w
    using that
  proof (induction k arbitrary: w)
    case 0
    then show ?case using assms(3) by (subst scrubber_loop.simps) simp
  next
    case (Suc k)
    let ?w = "w\<lparr>w_sc := snd (wake (n - Suc k)) (w_sc w)\<rparr>"
    have "\<not> fst (wake (n - Suc k))" "ds_state (w_sc ?w) \<noteq> STATE_ON" "n - Suc k + 1 = n - k"
      using Suc.prems assms(2) [of "n - Suc k"] by auto
    with Suc.IH [of ?w] Suc.prems show ?case by (subst scrubber_loop.simps) simp
  qed
  from this [of n "w\<lparr>w_s := zero_params\<rparr>"] assms(1) show ?thesis by (simp add: scrubber_def)
qed

theorem idle_task_stops_witness:
  "\<exists>w'. scrubber sample_scrub_env (\<lambda>n. (n = 3, \<lambda>sc. sc))
     (sample_world\<lparr>w_sc := default_scrubber ''sda''\<rparr>) = Some (0, w')"
  using idle_task_stops [of "sample_world\<lparr>w_sc := default_scrubber ''sda''\<rparr>" 3 "\<lambda>n. (n = 3, \<lambda>sc. sc)"]
  by (auto simp: default_scrubber_def)

end
