(* ===== verification/Vsprintf.thy ===== *)
theory Vsprintf
  imports Scrub_Prelude "HOL-Library.Monad_Syntax"
begin

text \<open>
  The parts of \<^verbatim>\<open>lib/vsprintf.c\<close> that the sysfs interface of the scrubber rests on: the
  conversions from text (\<open>simple_strtoull\<close>, \<open>simple_strtoul\<close>, \<open>simple_strtol\<close>) and the
  formatted output behind \<open>sprintf\<close> (\<open>put_dec_trunc\<close>, \<open>put_dec_full\<close>, \<open>put_dec\<close>,
  \<open>number\<close>, \<open>string\<close>, \<open>format_decode\<close>, \<open>vsnprintf\<close>).

  Every output statement of that file has the form \<open>if (buf < end) *buf = c; ++buf\<close>: a
  function that prints is modelled by the list of the characters it passes over, and
  \<open>vsnprintf\<close> cuts that list at the end of its buffer. The pointer formats (\<open>%p\<close>) and
  \<open>%n\<close>, which the scrubber does not use, and an argument that does not fit its format give
  \<open>None\<close>.
\<close>

section \<open>Characters\<close>

definition TOLOWER :: "char \<Rightarrow> char" where
  "TOLOWER c = char_of (of_char c OR (0x20 :: nat))"

definition isdigit :: "char \<Rightarrow> bool" where
  "isdigit c \<longleftrightarrow> 48 \<le> (of_char c :: nat) \<and> (of_char c :: nat) \<le> 57"

definition isxdigit :: "char \<Rightarrow> bool" where
  "isxdigit c \<longleftrightarrow> isdigit c \<or> 65 \<le> (of_char c :: nat) \<and> (of_char c :: nat) \<le> 70
     \<or> 97 \<le> (of_char c :: nat) \<and> (of_char c :: nat) \<le> 102"

definition chr :: "nat \<Rightarrow> char" where
  "chr n = char_of n"

text \<open>\<open>strlen\<close>, \<open>strnlen\<close> and \<open>strcmp\<close> of \<^verbatim>\<open>lib/string.c\<close>.\<close>

fun strlen :: "string \<Rightarrow> nat" where
  "strlen [] = 0"
| "strlen (c # s) = (if c \<noteq> NUL then Suc (strlen s) else 0)"

fun strnlen :: "string \<Rightarrow> nat \<Rightarrow> nat" where
  "strnlen [] count = 0"
| "strnlen (c # s) count = (if 0 < count \<and> c \<noteq> NUL then Suc (strnlen s (count - 1)) else 0)"

lemma char_at_0_nonempty: "char_at s 0 \<noteq> NUL \<Longrightarrow> s \<noteq> []"
  by auto

function strcmp :: "string \<Rightarrow> string \<Rightarrow> int" where
  "strcmp cs ct =
     (let c1 = char_at cs 0; c2 = char_at ct 0
      in if c1 \<noteq> c2 then (if (of_char c1 :: nat) < of_char c2 then - 1 else 1)
         else if c1 = NUL then 0
         else strcmp (drop 1 cs) (drop 1 ct))"
  by pat_completeness auto
termination
  by (relation "measure (length \<circ> snd)") (auto dest: char_at_0_nonempty)

declare strcmp.simps [simp del]

text \<open>A C string holds no NUL.\<close>

definition is_cstring :: "string \<Rightarrow> bool" where
  "is_cstring s \<longleftrightarrow> NUL \<notin> set s"

lemma strlen_cstring: "is_cstring s \<Longrightarrow> strlen s = length s"
  by (induction s) (auto simp: is_cstring_def)

lemma strnlen_cstring: "is_cstring s \<Longrightarrow> strnlen s n = min (length s) n"
  by (induction s n rule: strnlen.induct) (auto simp: is_cstring_def)

lemma strcmp_0: "is_cstring cs \<Longrightarrow> is_cstring ct \<Longrightarrow> strcmp cs ct = 0 \<longleftrightarrow> cs = ct"
proof (induction cs arbitrary: ct)
  case Nil
  then show ?case by (cases ct) (auto simp: strcmp.simps [of "[]"] is_cstring_def)
next
  case (Cons c cs)
  then show ?case
    by (cases ct) (auto simp: strcmp.simps [of "c # cs"] is_cstring_def)
qed

section \<open>From text to numbers\<close>

definition simple_guess_base :: "string \<Rightarrow> u32" where
  "simple_guess_base cp =
     (if char_at cp 0 = CHR ''0''
      then (if TOLOWER (char_at cp 1) = CHR ''x'' \<and> isxdigit (char_at cp 2) then 16 else 8)
      else 10)"

definition digit_value :: "char \<Rightarrow> u32" where
  "digit_value c = of_nat (if isdigit c then of_char c - 48 else of_char (TOLOWER c) - 97 + 10)"

text \<open>The loop: the result and the rest of the text, \<open>*endp\<close>.\<close>

fun strtoull_loop :: "string \<Rightarrow> u32 \<Rightarrow> u64 \<Rightarrow> u64 \<times> string" where
  "strtoull_loop [] base result = (result, [])"
| "strtoull_loop (c # cp) base result =
     (if isxdigit c \<and> digit_value c < base
      then strtoull_loop cp base (result * ucast base + ucast (digit_value c))
      else (result, c # cp))"

definition simple_strtoull :: "string \<Rightarrow> u32 \<Rightarrow> u64 \<times> string" where
  "simple_strtoull cp base0 =
     (let base = (if base0 = 0 then simple_guess_base cp else base0);
          cp1 = (if base = 16 \<and> char_at cp 0 = CHR ''0'' \<and> TOLOWER (char_at cp 1) = CHR ''x''
                 then drop 2 cp else cp)
      in strtoull_loop cp1 base 0)"

definition simple_strtoul :: "string \<Rightarrow> u32 \<Rightarrow> u64 \<times> string" where
  "simple_strtoul cp base = simple_strtoull cp base"

text \<open>The result is a \<open>long\<close>, kept as its 64 bits.\<close>

definition simple_strtol :: "string \<Rightarrow> u32 \<Rightarrow> u64 \<times> string" where
  "simple_strtol cp base =
     (if char_at cp 0 = CHR ''-'' then (case simple_strtoul (drop 1 cp) base of (n, rest) \<Rightarrow> (- n, rest))
      else simple_strtoul cp base)"

fun skip_atoi_loop :: "string \<Rightarrow> u32 \<Rightarrow> u32 \<times> string" where
  "skip_atoi_loop [] i = (i, [])"
| "skip_atoi_loop (c # s) i =
     (if isdigit c then skip_atoi_loop s (i * 10 + of_nat (of_char c) - 48) else (i, c # s))"

definition skip_atoi :: "string \<Rightarrow> u32 \<times> string" where
  "skip_atoi s = skip_atoi_loop s 0"

section \<open>Decimal digits\<close>

definition digit_char :: "u32 \<Rightarrow> char" where
  "digit_char d = chr (unat d + 48)"

text \<open>The digits are written least significant first.\<close>

definition put_dec_trunc :: "u32 \<Rightarrow> string" where
  "put_dec_trunc q0 =
     (let d1 = drop_bit 4 q0 AND 0xf;
          d2 = drop_bit 8 q0 AND 0xf;
          d3 = drop_bit 12 q0;
          d0 = 6 * (d3 + d2 + d1) + (q0 AND 0xf);
          q = drop_bit 11 (d0 * 0xcd);
          d0 = d0 - 10 * q;
          d1 = q + 9 * d3 + 5 * d2 + d1
      in digit_char d0 #
         (if d1 \<noteq> 0 then
            (let q = drop_bit 11 (d1 * 0xcd);
                 d1 = d1 - 10 * q;
                 d2 = q + 2 * d2
             in digit_char d1 #
                (if d2 \<noteq> 0 \<or> d3 \<noteq> 0 then
                   (let q = drop_bit 7 (d2 * 0xd);
                        d2 = d2 - 10 * q;
                        d3 = q + 4 * d3
                    in digit_char d2 #
                       (if d3 \<noteq> 0 then
                          (let q = drop_bit 11 (d3 * 0xcd);
                               d3 = d3 - 10 * q
                           in digit_char d3 # (if q \<noteq> 0 then [digit_char q] else []))
                        else []))
                 else []))
          else []))"

definition put_dec_full :: "u32 \<Rightarrow> string" where
  "put_dec_full q0 =
     (let d1 = drop_bit 4 q0 AND 0xf;
          d2 = drop_bit 8 q0 AND 0xf;
          d3 = drop_bit 12 q0;
          d0 = 6 * (d3 + d2 + d1) + (q0 AND 0xf);
          q = drop_bit 11 (d0 * 0xcd);
          d0 = d0 - 10 * q;
          d1 = q + 9 * d3 + 5 * d2 + d1;
          q1 = drop_bit 11 (d1 * 0xcd);
          d1 = d1 - 10 * q1;
          d2 = q1 + 2 * d2;
          q2 = drop_bit 7 (d2 * 0xd);
          d2 = d2 - 10 * q2;
          d3 = q2 + 4 * d3;
          q3 = drop_bit 11 (d3 * 0xcd);
          d3 = d3 - 10 * q3
      in [digit_char d0, digit_char d1, digit_char d2, digit_char d3, digit_char q3])"

lemma put_dec_decreases: "\<not> num < (100000 :: u64) \<Longrightarrow> unat (num div 100000) < unat num"
  by (simp add: unat_div word_less_nat_alt)

function put_dec :: "u64 \<Rightarrow> string" where
  "put_dec num =
     (if num < 100000 then put_dec_trunc (ucast num)
      else put_dec_full (ucast (num mod 100000)) @ put_dec (num div 100000))"
  by pat_completeness auto
termination
  by (relation "measure unat") (simp_all add: put_dec_decreases)

declare put_dec.simps [simp del]

section \<open>Format specifications\<close>

abbreviation (input) ZEROPAD :: u8 where "ZEROPAD \<equiv> 1"
abbreviation (input) SIGN :: u8 where "SIGN \<equiv> 2"
abbreviation (input) PLUS :: u8 where "PLUS \<equiv> 4"
abbreviation (input) SPACE :: u8 where "SPACE \<equiv> 8"
abbreviation (input) LEFT :: u8 where "LEFT \<equiv> 16"
abbreviation (input) SMALL :: u8 where "SMALL \<equiv> 32"
abbreviation (input) SPECIAL :: u8 where "SPECIAL \<equiv> 64"

datatype format_type =
    FORMAT_TYPE_NONE | FORMAT_TYPE_WIDTH | FORMAT_TYPE_PRECISION | FORMAT_TYPE_CHAR
  | FORMAT_TYPE_STR | FORMAT_TYPE_PTR | FORMAT_TYPE_PERCENT_CHAR | FORMAT_TYPE_INVALID
  | FORMAT_TYPE_LONG_LONG | FORMAT_TYPE_ULONG | FORMAT_TYPE_LONG | FORMAT_TYPE_UBYTE
  | FORMAT_TYPE_BYTE | FORMAT_TYPE_USHORT | FORMAT_TYPE_SHORT | FORMAT_TYPE_UINT
  | FORMAT_TYPE_INT | FORMAT_TYPE_NRCHARS | FORMAT_TYPE_SIZE_T | FORMAT_TYPE_PTRDIFF

text \<open>The two \<open>s16\<close> fields are words read with \<open>sint\<close>, so that they wrap as in the code.\<close>

record printf_spec =
  ps_type :: format_type
  ps_flags :: u8
  ps_base :: u8
  ps_qualifier :: char
  ps_field_width :: u16
  ps_precision :: u16

abbreviation flag_set :: "u8 \<Rightarrow> u8 \<Rightarrow> bool" where
  "flag_set flags f \<equiv> flags AND f \<noteq> 0"

section \<open>Printing a number and a string\<close>

text \<open>\<open>while (--spec.field_width >= 0) emit c\<close>: the output and the width left behind.\<close>

lemma pad_decreases: "0 \<le> sint (w - 1 :: u16) \<Longrightarrow> unat (w - 1) < unat w"
  by (cases "w = 0") (simp_all add: unat_minus_one unat_gt_0)

function pad :: "char \<Rightarrow> u16 \<Rightarrow> string \<times> u16" where
  "pad c w =
     (if 0 \<le> sint (w - 1) then (case pad c (w - 1) of (out, w') \<Rightarrow> (c # out, w')) else ([], w - 1))"
  by pat_completeness auto
termination
  by (relation "measure (\<lambda>(c, w). unat w)") (simp_all add: pad_decreases)

text \<open>\<open>while (len < spec.field_width--) emit ' '\<close>, the loop of \<open>string\<close>.\<close>

lemma pad_str_decreases:
  "int len < sint (w :: u16) \<Longrightarrow> unat (w - 1) < unat w"
  by (cases "w = 0") (simp_all add: unat_minus_one unat_gt_0)

function pad_str :: "nat \<Rightarrow> u16 \<Rightarrow> string \<times> u16" where
  "pad_str len w =
     (if int len < sint w then (case pad_str len (w - 1) of (out, w') \<Rightarrow> (CHR '' '' # out, w'))
      else ([], w - 1))"
  by pat_completeness auto
termination
  by (relation "measure (\<lambda>(len, w). unat w)") (simp_all add: pad_str_decreases)

text \<open>\<open>while (i <= --spec.precision) emit '0'\<close>.\<close>

lemma pad_zero_decreases:
  "int i \<le> sint (p - 1 :: u16) \<Longrightarrow> unat (p - 1) < unat p"
  by (cases "p = 0") (simp_all add: unat_minus_one unat_gt_0)

function pad_zero :: "nat \<Rightarrow> u16 \<Rightarrow> string" where
  "pad_zero i p = (if int i \<le> sint (p - 1) then CHR ''0'' # pad_zero i (p - 1) else [])"
  by pat_completeness auto
termination
  by (relation "measure (\<lambda>(i, p). unat p)") (simp_all add: pad_zero_decreases)

text \<open>\<open>while (--spec.field_width > 0) emit ' '\<close>, the loop of the format \<open>%c\<close>.\<close>

lemma pad_char_decreases: "0 < sint (w - 1 :: u16) \<Longrightarrow> unat (w - 1) < unat w"
  by (cases "w = 0") (simp_all add: unat_minus_one unat_gt_0)

function pad_char :: "u16 \<Rightarrow> string \<times> u16" where
  "pad_char w =
     (if 0 < sint (w - 1) then (case pad_char (w - 1) of (out, w') \<Rightarrow> (CHR '' '' # out, w'))
      else ([], w - 1))"
  by pat_completeness auto
termination
  by (relation "measure unat") (simp_all add: pad_char_decreases)

declare pad.simps [simp del] pad_str.simps [simp del] pad_zero.simps [simp del]
  pad_char.simps [simp del]

text \<open>The digits of a number in base 8 or 16, least significant first.\<close>

definition or_case :: "u8 \<Rightarrow> char \<Rightarrow> char" where
  "or_case locase c = chr (unat (of_nat (of_char c) OR locase))"

lemma radix_decreases: "num \<noteq> 0 \<Longrightarrow> unat (drop_bit (if b then 4 else 3) (num :: u64)) < unat num"
  by (simp add: drop_bit_eq_div unat_div unat_gt_0)

function put_radix :: "u8 \<Rightarrow> u8 \<Rightarrow> u64 \<Rightarrow> string" where
  "put_radix base locase num =
     (let c = or_case locase (''0123456789ABCDEF'' ! unat ((ucast num :: u8) AND (base - 1)));
          num' = drop_bit (if base = 16 then 4 else 3) num
      in c # (if num' \<noteq> 0 then put_radix base locase num' else []))"
  by pat_completeness auto
termination
  apply (relation "measure (\<lambda>(base, locase, num). unat num)")
   apply simp
  subgoal for base locase num c num'
    using radix_decreases [of num "base = 16"] by (cases "num = 0") auto
  done

declare put_radix.simps [simp del]

text \<open>\<open>sign_prefix\<close>: the sign character (if any), the magnitude and the width left.\<close>

definition sign_prefix :: "u64 \<Rightarrow> u8 \<Rightarrow> u16 \<Rightarrow> string \<times> u64 \<times> u16" where
  "sign_prefix num flags width =
     (if flag_set flags SIGN then
        (if sint num < 0 then (''-'', - num, width - 1)
         else if flag_set flags PLUS then (''+'', num, width - 1)
         else if flag_set flags SPACE then ('' '', num, width - 1)
         else ([], num, width))
      else ([], num, width))"

definition number :: "u64 \<Rightarrow> printf_spec \<Rightarrow> string" where
  "number num0 spec =
     (let need_pfx = (flag_set (ps_flags spec) SPECIAL \<and> ps_base spec \<noteq> 10);
          locase = ps_flags spec AND SMALL;
          flags = (if flag_set (ps_flags spec) LEFT then ps_flags spec AND NOT ZEROPAD
                   else ps_flags spec);
          (sign, num, w0) = sign_prefix num0 flags (ps_field_width spec);
          w1 = (if need_pfx then (if ps_base spec = 16 then w0 - 1 - 1 else w0 - 1) else w0);
          tmp = (if num = 0 then ''0''
                 else if ps_base spec \<noteq> 10 then put_radix (ps_base spec) locase num
                 else put_dec num);
          i = length tmp;
          prec = (if int i > sint (ps_precision spec) then of_nat i else ps_precision spec);
          w2 = w1 - prec;
          (lead, w3) = (if \<not> flag_set flags (ZEROPAD + LEFT) then pad CHR '' '' w2 else ([], w2));
          pfx = (if need_pfx
                 then CHR ''0'' # (if ps_base spec = 16 then [or_case locase CHR ''X''] else [])
                 else []);
          (fill, w4) = (if \<not> flag_set flags LEFT
                        then pad (if flag_set flags ZEROPAD then CHR ''0'' else CHR '' '') w3
                        else ([], w3));
          (trail, w5) = pad CHR '' '' w4
      in lead @ sign @ pfx @ fill @ pad_zero i prec @ rev tmp @ trail)"

text \<open>\<open>None\<close> is a pointer below \<open>PAGE_SIZE\<close>.\<close>

definition string_out :: "string option \<Rightarrow> printf_spec \<Rightarrow> string" where
  "string_out s0 spec =
     (let s = (case s0 of None \<Rightarrow> ''(null)'' | Some t \<Rightarrow> t);
          len = strnlen s (unat (scast (ps_precision spec) :: u64));
          (lead, w1) = (if \<not> flag_set (ps_flags spec) LEFT then pad_str len (ps_field_width spec)
                        else ([], ps_field_width spec));
          (trail, w2) = pad_str len w1
      in lead @ take len s @ trail)"

section \<open>Reading a format\<close>

fun fd_literal :: "string \<Rightarrow> string" where
  "fd_literal [] = []"
| "fd_literal (c # fmt) = (if c = CHR ''%'' then c # fmt else fd_literal fmt)"

definition flag_of :: "char \<Rightarrow> u8 option" where
  "flag_of c =
     (if c = CHR ''-'' then Some LEFT
      else if c = CHR ''+'' then Some PLUS
      else if c = CHR '' '' then Some SPACE
      else if c = CHR ''#'' then Some SPECIAL
      else if c = CHR ''0'' then Some ZEROPAD
      else None)"

fun fd_flags :: "string \<Rightarrow> u8 \<Rightarrow> string \<times> u8" where
  "fd_flags [] flags = ([], flags)"
| "fd_flags (c # fmt) flags =
     (case flag_of c of Some f \<Rightarrow> fd_flags fmt (flags OR f) | None \<Rightarrow> (c # fmt, flags))"

definition number_type :: "char \<Rightarrow> u8 \<Rightarrow> format_type" where
  "number_type qualifier flags =
     (if qualifier = CHR ''L'' then FORMAT_TYPE_LONG_LONG
      else if qualifier = CHR ''l''
        then (if flag_set flags SIGN then FORMAT_TYPE_LONG else FORMAT_TYPE_ULONG)
      else if TOLOWER qualifier = CHR ''z'' then FORMAT_TYPE_SIZE_T
      else if qualifier = CHR ''t'' then FORMAT_TYPE_PTRDIFF
      else if qualifier = CHR ''H''
        then (if flag_set flags SIGN then FORMAT_TYPE_BYTE else FORMAT_TYPE_UBYTE)
      else if qualifier = CHR ''h''
        then (if flag_set flags SIGN then FORMAT_TYPE_SHORT else FORMAT_TYPE_USHORT)
      else (if flag_set flags SIGN then FORMAT_TYPE_INT else FORMAT_TYPE_UINT))"

text \<open>The conversion character: the specification and what is left of the format.\<close>

definition fd_conversion :: "string \<Rightarrow> printf_spec \<Rightarrow> string \<times> printf_spec" where
  "fd_conversion fmt spec0 =
     (let spec = spec0 \<lparr> ps_base := 10 \<rparr>; c = char_at fmt 0; next = drop 1 fmt;
          num = (\<lambda>s. (next, s \<lparr> ps_type := number_type (ps_qualifier s) (ps_flags s) \<rparr>))
      in if c = CHR ''c'' then (next, spec \<lparr> ps_type := FORMAT_TYPE_CHAR \<rparr>)
         else if c = CHR ''s'' then (next, spec \<lparr> ps_type := FORMAT_TYPE_STR \<rparr>)
         else if c = CHR ''p'' then (fmt, spec \<lparr> ps_type := FORMAT_TYPE_PTR \<rparr>)
         else if c = CHR ''n'' then (next, spec \<lparr> ps_type := FORMAT_TYPE_NRCHARS \<rparr>)
         else if c = CHR ''%'' then (next, spec \<lparr> ps_type := FORMAT_TYPE_PERCENT_CHAR \<rparr>)
         else if c = CHR ''o'' then num (spec \<lparr> ps_base := 8 \<rparr>)
         else if c = CHR ''x'' then num (spec \<lparr> ps_flags := ps_flags spec OR SMALL, ps_base := 16 \<rparr>)
         else if c = CHR ''X'' then num (spec \<lparr> ps_base := 16 \<rparr>)
         else if c = CHR ''d'' \<or> c = CHR ''i'' then num (spec \<lparr> ps_flags := ps_flags spec OR SIGN \<rparr>)
         else if c = CHR ''u'' then num spec
         else (fmt, spec \<lparr> ps_type := FORMAT_TYPE_INVALID \<rparr>))"

definition fd_qualifier :: "string \<Rightarrow> printf_spec \<Rightarrow> string \<times> printf_spec" where
  "fd_qualifier fmt spec =
     (let c = char_at fmt 0
      in if c = CHR ''h'' \<or> TOLOWER c = CHR ''l'' \<or> TOLOWER c = CHR ''z'' \<or> c = CHR ''t'' then
           (if char_at fmt 1 = c \<and> c = CHR ''l''
            then fd_conversion (drop 2 fmt) (spec \<lparr> ps_qualifier := CHR ''L'' \<rparr>)
            else if char_at fmt 1 = c \<and> c = CHR ''h''
            then fd_conversion (drop 2 fmt) (spec \<lparr> ps_qualifier := CHR ''H'' \<rparr>)
            else fd_conversion (drop 1 fmt) (spec \<lparr> ps_qualifier := c \<rparr>))
         else fd_conversion fmt (spec \<lparr> ps_qualifier := CHR 0xFF \<rparr>))"

definition fd_precision :: "string \<Rightarrow> printf_spec \<Rightarrow> string \<times> printf_spec" where
  "fd_precision fmt spec0 =
     (let spec = spec0 \<lparr> ps_precision := - 1 \<rparr>
      in if char_at fmt 0 = CHR ''.'' then
           (let fmt = drop 1 fmt
            in if isdigit (char_at fmt 0) then
                 (case skip_atoi fmt of (n, rest) \<Rightarrow>
                    fd_qualifier rest (spec \<lparr> ps_precision := (if sint (ucast n :: u16) < 0 then 0
                                                             else ucast n) \<rparr>))
               else if char_at fmt 0 = CHR ''*''
               then (drop 1 fmt, spec \<lparr> ps_type := FORMAT_TYPE_PRECISION \<rparr>)
               else fd_qualifier fmt spec)
         else fd_qualifier fmt spec)"

text \<open>What remains of the format, and the specification it left.\<close>

definition format_decode :: "string \<Rightarrow> printf_spec \<Rightarrow> string \<times> printf_spec" where
  "format_decode fmt spec =
     (if ps_type spec = FORMAT_TYPE_WIDTH then
        fd_precision fmt
          ((if sint (ps_field_width spec) < 0
            then spec \<lparr> ps_flags := ps_flags spec OR LEFT, ps_field_width := - ps_field_width spec \<rparr>
            else spec) \<lparr> ps_type := FORMAT_TYPE_NONE \<rparr>)
      else if ps_type spec = FORMAT_TYPE_PRECISION then
        fd_qualifier fmt
          ((if sint (ps_precision spec) < 0 then spec \<lparr> ps_precision := 0 \<rparr> else spec)
             \<lparr> ps_type := FORMAT_TYPE_NONE \<rparr>)
      else let rest = fd_literal fmt; spec = spec \<lparr> ps_type := FORMAT_TYPE_NONE \<rparr>
           in if rest \<noteq> fmt \<or> rest = [] then (rest, spec)
              else case fd_flags (drop 1 fmt) 0 of (fmt, flags) \<Rightarrow>
                let spec = spec \<lparr> ps_flags := flags, ps_field_width := - 1 \<rparr>
                in if isdigit (char_at fmt 0) then
                     (case skip_atoi fmt of (n, rest) \<Rightarrow>
                        fd_precision rest (spec \<lparr> ps_field_width := ucast n \<rparr>))
                   else if char_at fmt 0 = CHR ''*''
                   then (drop 1 fmt, spec \<lparr> ps_type := FORMAT_TYPE_WIDTH \<rparr>)
                   else fd_precision fmt spec)"

section \<open>vsnprintf\<close>

text \<open>
  The variable arguments: 32 bits (\<open>int\<close>), 64 bits (\<open>long\<close>, \<open>long long\<close>, \<open>size_t\<close>), or a string,
  where \<open>None\<close> is a null pointer.
\<close>

datatype printf_arg = Arg32 u32 | Arg64 u64 | ArgStr "string option"

definition number_arg :: "format_type \<Rightarrow> printf_arg \<Rightarrow> u64 option" where
  "number_arg t a =
     (case a of
        Arg64 n \<Rightarrow> if t \<in> {FORMAT_TYPE_LONG_LONG, FORMAT_TYPE_ULONG, FORMAT_TYPE_LONG,
                          FORMAT_TYPE_SIZE_T, FORMAT_TYPE_PTRDIFF} then Some n else None
      | Arg32 n \<Rightarrow>
          if t = FORMAT_TYPE_UBYTE then Some (ucast (ucast n :: u8))
          else if t = FORMAT_TYPE_BYTE then Some (scast (ucast n :: u8))
          else if t = FORMAT_TYPE_USHORT then Some (ucast (ucast n :: u16))
          else if t = FORMAT_TYPE_SHORT then Some (scast (ucast n :: u16))
          else if t = FORMAT_TYPE_INT then Some (scast n)
          else if t = FORMAT_TYPE_UINT then Some (ucast n)
          else None
      | ArgStr s \<Rightarrow> None)"

definition char_out :: "u32 \<Rightarrow> printf_spec \<Rightarrow> string \<times> u16" where
  "char_out n spec =
     (let (lead, w1) = (if \<not> flag_set (ps_flags spec) LEFT then pad_char (ps_field_width spec)
                        else ([], ps_field_width spec));
          (trail, w2) = pad_char w1
      in (lead @ [chr (unat (ucast n :: u8))] @ trail, w2))"

abbreviation awaits_arg :: "printf_spec \<Rightarrow> bool" where
  "awaits_arg spec \<equiv> ps_type spec = FORMAT_TYPE_WIDTH \<or> ps_type spec = FORMAT_TYPE_PRECISION"

lemma length_fd_literal: "length (fd_literal fmt) \<le> length fmt"
  by (induction fmt) auto

lemma fd_literal_shorter: "fd_literal fmt \<noteq> fmt \<Longrightarrow> length (fd_literal fmt) < length fmt"
  by (cases fmt) (auto simp: le_imp_less_Suc length_fd_literal)

lemma length_fd_flags: "fd_flags fmt fl = (rest, fl') \<Longrightarrow> length rest \<le> length fmt"
  by (induction fmt fl rule: fd_flags.induct) (auto split: option.splits)

lemma length_skip_atoi_loop: "skip_atoi_loop s i = (n, rest) \<Longrightarrow> length rest \<le> length s"
  by (induction s i rule: skip_atoi_loop.induct) (auto split: if_splits)

lemma length_skip_atoi: "skip_atoi s = (n, rest) \<Longrightarrow> length rest \<le> length s"
  by (simp add: skip_atoi_def length_skip_atoi_loop)

lemma fd_conversion_length: "length (fst (fd_conversion fmt spec)) \<le> length fmt"
  by (auto simp: fd_conversion_def Let_def)

lemma number_type_not_await:
  "number_type q fl \<noteq> FORMAT_TYPE_WIDTH" "number_type q fl \<noteq> FORMAT_TYPE_PRECISION"
  by (auto simp: number_type_def)

lemma fd_conversion_not_await: "\<not> awaits_arg (snd (fd_conversion fmt spec))"
  by (auto simp: fd_conversion_def Let_def number_type_not_await)

lemma if_both: "P a \<Longrightarrow> P b \<Longrightarrow> P (if c then a else b)"
  by simp

lemma fd_qualifier_conversion: "\<exists>k sp. fd_qualifier fmt spec = fd_conversion (drop k fmt) sp"
proof -
  have at: "\<exists>k' sp'. fd_conversion (drop k fmt) sp = fd_conversion (drop k' fmt) sp'" for k sp
    by blast
  have "\<exists>k' sp'. fd_conversion fmt sp = fd_conversion (drop k' fmt) sp'" for sp
    using at [of 0 sp] by simp
  with at show ?thesis
    unfolding fd_qualifier_def Let_def
    by (intro if_both [where P = "\<lambda>r. \<exists>k sp. r = fd_conversion (drop k fmt) sp"])
qed

lemma fd_qualifier_length: "length (fst (fd_qualifier fmt spec)) \<le> length fmt"
  using fd_qualifier_conversion [of fmt spec] fd_conversion_length
  by (metis diff_le_self length_drop order_trans)

lemma fd_qualifier_not_await: "\<not> awaits_arg (snd (fd_qualifier fmt spec))"
  using fd_qualifier_conversion [of fmt spec] fd_conversion_not_await by metis

lemma fd_precision_length: "length (fst (fd_precision fmt spec)) \<le> length fmt"
proof -
  have qual: "skip_atoi (drop 1 fmt) = (n, rest) \<Longrightarrow> length (fst (fd_qualifier rest sp)) \<le> length fmt"
    for n rest sp
    using length_skip_atoi [of "drop 1 fmt"] fd_qualifier_length [of rest sp] by fastforce
  have tail: "length (fst (fd_qualifier (drop 1 fmt) sp)) \<le> length fmt" for sp
    using fd_qualifier_length [of "drop 1 fmt" sp] by simp
  show ?thesis
    using qual tail fd_qualifier_length [of fmt]
    by (auto simp: fd_precision_def Let_def split: prod.splits)
qed

lemma fd_precision_progress:
  "awaits_arg (snd (fd_precision fmt spec)) \<Longrightarrow> length (fst (fd_precision fmt spec)) < length fmt"
  using fd_qualifier_not_await
  by (cases fmt) (auto simp: fd_precision_def Let_def split: prod.splits if_splits)

text \<open>
  A call shortens the format, or it finishes a specification that was waiting for its
  argument: the loop of \<open>vsnprintf\<close> ends.
\<close>

definition decode_measure :: "string \<Rightarrow> printf_spec \<Rightarrow> nat" where
  "decode_measure fmt spec = 2 * length fmt + (if awaits_arg spec then 1 else 0)"

lemma format_decode_resume:
  assumes "awaits_arg spec"
  shows "decode_measure (fst (format_decode fmt spec)) (snd (format_decode fmt spec))
           < decode_measure fmt spec"
proof (cases "ps_type spec = FORMAT_TYPE_WIDTH")
  case True
  have "decode_measure (fst (fd_precision fmt sp)) (snd (fd_precision fmt sp)) < 2 * length fmt + 1" for sp
    using fd_precision_length [of fmt sp] fd_precision_progress [of fmt sp]
    by (auto simp: decode_measure_def)
  then show ?thesis
    using True by (simp add: format_decode_def decode_measure_def)
next
  case False
  have "decode_measure (fst (fd_qualifier fmt sp)) (snd (fd_qualifier fmt sp)) < 2 * length fmt + 1" for sp
    using fd_qualifier_length [of fmt sp] fd_qualifier_not_await [of fmt sp]
    by (auto simp: decode_measure_def)
  then show ?thesis
    using assms False by (simp add: format_decode_def decode_measure_def)
qed

lemma decode_measure_shorter:
  "length rest < length fmt \<Longrightarrow> decode_measure rest sp < decode_measure fmt spec"
  by (simp add: decode_measure_def)

text \<open>The part of \<open>format_decode\<close> after the flags of a fresh specification.\<close>

lemma format_decode_literal:
  assumes "\<not> awaits_arg spec" "fd_literal fmt \<noteq> fmt"
  shows "format_decode fmt spec = (fd_literal fmt, spec \<lparr> ps_type := FORMAT_TYPE_NONE \<rparr>)"
  using assms unfolding format_decode_def by (simp add: Let_def)

lemma format_decode_percent:
  assumes "\<not> awaits_arg spec" "fd_flags fmt 0 = (rest, fl)"
  shows "format_decode (CHR ''%'' # fmt) spec =
     (let sp = spec \<lparr> ps_type := FORMAT_TYPE_NONE, ps_flags := fl, ps_field_width := - 1 \<rparr>
      in if isdigit (char_at rest 0) then
           (case skip_atoi rest of (n, rest') \<Rightarrow> fd_precision rest' (sp \<lparr> ps_field_width := ucast n \<rparr>))
         else if char_at rest 0 = CHR ''*'' then (drop 1 rest, sp \<lparr> ps_type := FORMAT_TYPE_WIDTH \<rparr>)
         else fd_precision rest sp)"
  using assms unfolding format_decode_def by (simp add: Let_def)

lemma fd_literal_same: "fd_literal fmt = fmt \<longleftrightarrow> fmt = [] \<or> hd fmt = CHR ''%''"
proof (cases fmt)
  case (Cons c cs)
  then show ?thesis using length_fd_literal [of cs] by auto
qed simp

lemma format_decode_fresh:
  assumes spec: "\<not> awaits_arg spec" and ne: "fmt \<noteq> []"
  shows "length (fst (format_decode fmt spec)) < length fmt"
proof (cases "fd_literal fmt = fmt")
  case True
  then obtain fmt1 where fmt: "fmt = CHR ''%'' # fmt1" 
    using ne unfolding fd_literal_same by (cases fmt) simp_all
  obtain rest fl where fl: "fd_flags fmt1 0 = (rest, fl)" by fastforce
  have len: "length rest < length fmt" using length_fd_flags [OF fl] fmt by simp
  have prec: "length rest' \<le> length rest \<Longrightarrow> length (fst (fd_precision rest' sp)) < length fmt"
    for rest' sp
    using fd_precision_length [of rest' sp] len by linarith
  obtain n rest' where atoi: "skip_atoi rest = (n, rest')" by fastforce
  have len': "length rest' \<le> length rest" using length_skip_atoi [OF atoi] .
  have "length (fst (format_decode (CHR ''%'' # fmt1) spec)) < length fmt"
    unfolding format_decode_percent [OF spec fl] Let_def
    using prec [OF len'] prec [OF order_refl] len by (simp add: atoi less_imp_diff_less)
  then show ?thesis by (simp add: fmt)
next
  case False
  then show ?thesis using fd_literal_shorter [OF False] by (simp add: format_decode_literal spec)
qed

lemma format_decode_progress:
  assumes "fmt \<noteq> []" "format_decode fmt spec = (rest, spec')"
  shows "decode_measure rest spec' < decode_measure fmt spec"
proof (cases "awaits_arg spec")
  case True
  then show ?thesis using format_decode_resume [OF True, of fmt] assms(2) by simp
next
  case False
  then show ?thesis
    using format_decode_fresh [OF False assms(1)] assms(2) decode_measure_shorter [of rest fmt spec' spec]
    by simp
qed

text \<open>
  One turn of the loop, after \<open>format_decode\<close>: \<open>text\<close> is what that call has read. The result is
  the characters passed over, the specification and the arguments left.
\<close>

definition vformat_step :: "string \<Rightarrow> printf_spec \<Rightarrow> printf_arg list \<Rightarrow>
    (string \<times> printf_spec \<times> printf_arg list) option" where
  "vformat_step text spec args =
     (case ps_type spec of
        FORMAT_TYPE_NONE \<Rightarrow> Some (text, spec, args)
      | FORMAT_TYPE_WIDTH \<Rightarrow>
          (case args of Arg32 n # as \<Rightarrow> Some ([], spec \<lparr> ps_field_width := ucast n \<rparr>, as) | _ \<Rightarrow> None)
      | FORMAT_TYPE_PRECISION \<Rightarrow>
          (case args of Arg32 n # as \<Rightarrow> Some ([], spec \<lparr> ps_precision := ucast n \<rparr>, as) | _ \<Rightarrow> None)
      | FORMAT_TYPE_CHAR \<Rightarrow>
          (case args of Arg32 n # as \<Rightarrow>
             (case char_out n spec of (out, w) \<Rightarrow> Some (out, spec \<lparr> ps_field_width := w \<rparr>, as))
           | _ \<Rightarrow> None)
      | FORMAT_TYPE_STR \<Rightarrow>
          (case args of ArgStr s # as \<Rightarrow> Some (string_out s spec, spec, as) | _ \<Rightarrow> None)
      | FORMAT_TYPE_PTR \<Rightarrow> None
      | FORMAT_TYPE_PERCENT_CHAR \<Rightarrow> Some (''%'', spec, args)
      | FORMAT_TYPE_INVALID \<Rightarrow> Some (''%'', spec, args)
      | FORMAT_TYPE_NRCHARS \<Rightarrow> None
      | t \<Rightarrow> (case args of a # as \<Rightarrow>
               map_option (\<lambda>num. (number num spec, spec, as)) (number_arg t a)
             | _ \<Rightarrow> None))"

lemma vformat_step_type:
  "vformat_step text spec args = Some (out, spec', args') \<Longrightarrow> ps_type spec' = ps_type spec"
  by (auto simp: vformat_step_def split: format_type.splits list.splits printf_arg.splits prod.splits)

lemma vformat_decreases:
  assumes "fmt \<noteq> []" "format_decode fmt spec = (rest, spec')"
    "vformat_step text spec' args = Some (out, spec'', args')"
  shows "decode_measure rest spec'' < decode_measure fmt spec"
  using format_decode_progress [OF assms(1,2)] vformat_step_type [OF assms(3)]
  by (simp add: decode_measure_def)

text \<open>The loop: all the characters it passes over.\<close>

function vformat :: "string \<Rightarrow> printf_spec \<Rightarrow> printf_arg list \<Rightarrow> string option" where
  "vformat fmt spec args =
     (if fmt = [] then Some []
      else case format_decode fmt spec of (rest, spec') \<Rightarrow>
        (case vformat_step (take (length fmt - length rest) fmt) spec' args of
           Some (out, spec'', args') \<Rightarrow> map_option ((@) out) (vformat rest spec'' args')
         | None \<Rightarrow> None))"
  by pat_completeness auto
termination
  by (relation "measure (\<lambda>(fmt, spec, args). decode_measure fmt spec)")
    (auto intro: vformat_decreases [OF _ sym])

declare vformat.simps [simp del]

definition zero_spec :: printf_spec where
  "zero_spec = \<lparr> ps_type = FORMAT_TYPE_NONE, ps_flags = 0, ps_base = 0, ps_qualifier = NUL,
                 ps_field_width = 0, ps_precision = 0 \<rparr>"

text \<open>
  \<open>vsnprintf\<close>: the string left in the buffer (\<open>None\<close> when nothing is written to it, not even the
  terminator) and the return value.
\<close>

definition vsnprintf :: "u64 \<Rightarrow> string \<Rightarrow> printf_arg list \<Rightarrow> (string option \<times> int) option" where
  "vsnprintf bufsize fmt args =
     (if s32_of bufsize < 0 then Some (None, 0)
      else map_option (\<lambda>out. (if 0 < bufsize then Some (take (unat bufsize - 1) out) else None,
                              int (length out)))
             (vformat fmt zero_spec args))"

definition sprintf :: "string \<Rightarrow> printf_arg list \<Rightarrow> (string option \<times> int) option" where
  "sprintf fmt args = vsnprintf 0x7fffffff fmt args"

section \<open>Decimal digits are the digits\<close>

text \<open>The reference: the decimal digits of a number, least significant first.\<close>

definition digit :: "nat \<Rightarrow> char" where
  "digit d = chr (d + 48)"

fun dec_digits :: "nat \<Rightarrow> string" where
  "dec_digits n = digit (n mod 10) # (if n < 10 then [] else dec_digits (n div 10))"

definition dec :: "nat \<Rightarrow> string" where
  "dec n = rev (dec_digits n)"

declare dec_digits.simps [simp del]

lemma div_by_reciprocal:
  fixes x c d :: nat
  assumes "10 * c = d + 2" "2 * (x div 10) + c * (x mod 10) < d"
  shows "x * c div d = x div 10"
proof -
  define k r where "k = x div 10" and "r = x mod 10"
  have x: "x = 10 * k + r" unfolding k_def r_def by (rule mult_div_mod_eq [symmetric])
  have "x * c = (10 * c) * k + c * r" by (simp add: x algebra_simps)
  also have "\<dots> = d * k + (2 * k + c * r)" unfolding assms(1) by (simp add: algebra_simps)
  finally show ?thesis
    using assms(2) by (simp add: div_mult_self4 flip: k_def r_def)
qed

lemma div10_by_205: "x \<le> 400 \<Longrightarrow> x * 205 div 2048 = x div (10 :: nat)"
proof -
  assume "x \<le> 400"
  then have "x div 10 \<le> 40" "x mod 10 \<le> 9" using div_le_mono [of x 400 10] by simp_all
  then show ?thesis by (intro div_by_reciprocal) simp_all
qed

lemma div10_by_13: "x \<le> 68 \<Longrightarrow> x * 13 div 128 = x div (10 :: nat)"
proof -
  assume x: "x \<le> 68"
  have "2 * (x div 10) + 13 * (x mod 10) < 128"
  proof (cases "x < 60")
    case True
    then have "x div 10 \<le> 5" "x mod 10 \<le> 9" by simp_all
    then show ?thesis by linarith
  next
    case False
    then have six: "x div 10 = 6" using x by (intro div_nat_eqI) simp_all
    then have "x mod 10 \<le> 8" using x mult_div_mod_eq [of 10 x] by linarith
    with six show ?thesis by simp
  qed
  then show ?thesis by (intro div_by_reciprocal) simp_all
qed

lemma unat_div10_205:
  "unat (d :: u32) \<le> 400 \<Longrightarrow> unat (drop_bit 11 (d * 205)) = unat d div 10"
  using div10_by_205 [of "unat d"]
  by (simp add: unat_drop_bit_eq drop_bit_eq_div unat_word_ariths)

lemma unat_div10_13:
  "unat (d :: u32) \<le> 68 \<Longrightarrow> unat (drop_bit 7 (d * 13)) = unat d div 10"
  using div10_by_13 [of "unat d"]
  by (simp add: unat_drop_bit_eq drop_bit_eq_div unat_word_ariths)

lemma unat_minus_tens:
  "unat (q :: u32) = unat d div 10 \<Longrightarrow> unat (d - 10 * q) = unat d mod 10"
proof -
  assume q: "unat q = unat d div 10"
  have "10 * unat q \<le> unat d" by (simp add: q)
  moreover have "unat (10 * q) = 10 * unat q"
    using calculation unat_u32_less [of d] by (simp add: unat_word_ariths)
  ultimately show ?thesis 
    by (simp add: unat_sub_le word_le_nat_alt q minus_mult_div_eq_mod)
qed

lemma digit_char_eq: "digit_char d = digit (unat d)"
  by (simp add: digit_char_def digit_def)

lemma unat_nibble: "unat (w AND 0xf :: u32) = unat w mod 16"
proof -
  have "w AND 0xf = take_bit 4 w" by (simp add: take_bit_eq_mask mask_eq_exp_minus_1)
  then show ?thesis by (simp add: take_bit_eq_mod unat_mod)
qed

text \<open>The sums of the two routines in numbers, for a value of at most five digits.\<close>

lemma nibble_sums:
  fixes q0 :: u32
  assumes bound: "unat q0 < 100000"
    and d1: "d1 = drop_bit 4 q0 AND 0xf" and d2: "d2 = drop_bit 8 q0 AND 0xf"
    and d3: "d3 = drop_bit 12 q0"
    and d0: "d0 = 6 * (d3 + d2 + d1) + (q0 AND 0xf)"
  shows "unat d0 \<le> 400" "unat d0 mod 10 = unat q0 mod 10"
    and "unat q0 div 10 = unat d0 div 10 + 409 * unat d3 + 25 * unat d2 + unat d1"
    and "unat d1 \<le> 15" "unat d2 \<le> 15" "unat d3 \<le> 24"
proof -
  have u: "unat d1 = unat q0 div 16 mod 16" "unat d2 = unat q0 div 256 mod 16"
    "unat d3 = unat q0 div 4096"
    by (simp_all add: d1 d2 d3 unat_nibble drop_bit_eq_div unat_div)
  have le: "unat d1 \<le> 15" "unat d2 \<le> 15" "unat d3 \<le> 24"
    using bound mod_less_divisor [of 16 "unat q0 div 16"] mod_less_divisor [of 16 "unat q0 div 256"]
    unfolding u by linarith+
  then show "unat d1 \<le> 15" "unat d2 \<le> 15" "unat d3 \<le> 24" .
  have n0: "unat d0 = 6 * unat d3 + 6 * unat d2 + 6 * unat d1 + unat q0 mod 16"
    using le by (simp add: d0 unat_word_ariths unat_nibble)
  have sum: "unat q0 = 4096 * unat d3 + 256 * unat d2 + 16 * unat d1 + unat q0 mod 16"
  proof -
    have "unat q0 div 256 = unat q0 div 16 div 16" "unat q0 div 4096 = unat q0 div 256 div 16"
      by (simp_all add: div_mult2_eq [symmetric])
    then show ?thesis
      using div_mult_mod_eq [of "unat q0" 16] div_mult_mod_eq [of "unat q0 div 16" 16]
        div_mult_mod_eq [of "unat q0 div 256" 16]
      unfolding u by linarith
  qed
  show "unat d0 \<le> 400" using le n0 by linarith
  have split: "unat q0 = 10 * (409 * unat d3 + 25 * unat d2 + unat d1) + unat d0"
    using sum n0 by simp
  show "unat d0 mod 10 = unat q0 mod 10" unfolding split by (rule mod_mult_self4 [symmetric])
  show "unat q0 div 10 = unat d0 div 10 + 409 * unat d3 + 25 * unat d2 + unat d1"
    unfolding split by (subst div_mult_self4) simp_all
qed

lemma le_iff_div: "numeral k \<le> n \<longleftrightarrow> n div numeral k \<noteq> (0 :: nat)"
  by (simp add: div_eq_0_iff not_less)

lemma nibble_chain:
  fixes q0 :: u32
  assumes bound: "unat q0 < 100000"
    and d1: "d1 = drop_bit 4 q0 AND 0xf" and d2: "d2 = drop_bit 8 q0 AND 0xf"
    and d3: "d3 = drop_bit 12 q0"
    and d0: "d0 = 6 * (d3 + d2 + d1) + (q0 AND 0xf)"
    and q: "q = drop_bit 11 (d0 * 0xcd)"
    and e1: "e1 = q + 9 * d3 + 5 * d2 + d1" and q1: "q1 = drop_bit 11 (e1 * 0xcd)"
    and e2: "e2 = q1 + 2 * d2" and q2: "q2 = drop_bit 7 (e2 * 0xd)"
    and e3: "e3 = q2 + 4 * d3" and q3: "q3 = drop_bit 11 (e3 * 0xcd)"
  shows "unat (d0 - 10 * q) = unat q0 mod 10"
    and "unat (e1 - 10 * q1) = unat q0 div 10 mod 10"
    and "unat (e2 - 10 * q2) = unat q0 div 100 mod 10"
    and "unat (e3 - 10 * q3) = unat q0 div 1000 mod 10"
    and "unat q3 = unat q0 div 10000" and "q3 \<noteq> 0 \<longleftrightarrow> 10000 \<le> unat q0"
    and "e1 \<noteq> 0 \<longleftrightarrow> 10 \<le> unat q0" "e2 \<noteq> 0 \<or> d3 \<noteq> 0 \<longleftrightarrow> 100 \<le> unat q0"
    and "e3 \<noteq> 0 \<longleftrightarrow> 1000 \<le> unat q0"
proof -
  note sums = nibble_sums [OF bound d1 d2 d3 d0]
  have uq: "unat q = unat d0 div 10" unfolding q by (rule unat_div10_205) (rule sums)
  have ue1: "unat e1 = unat q + 9 * unat d3 + 5 * unat d2 + unat d1"
    using sums uq by (simp add: e1 unat_word_ariths)
  have div10: "unat q0 div 10 = 400 * unat d3 + 20 * unat d2 + unat e1" using sums uq ue1 by linarith
  have le1: "unat e1 \<le> 400" using sums uq ue1 by linarith
  have uq1: "unat q1 = unat e1 div 10" unfolding q1 by (rule unat_div10_205) (rule le1)
  have ue2: "unat e2 = unat q1 + 2 * unat d2"
    using sums uq1 le1 by (simp add: e2 unat_word_ariths)
  have tens: "unat q0 div 100 = unat q0 div 10 div 10" "unat q0 div 1000 = unat q0 div 100 div 10"
    "unat q0 div 10000 = unat q0 div 1000 div 10"
    by (simp_all add: div_mult2_eq [symmetric])
  have by10: "unat q0 div 10 = 10 * (40 * unat d3 + 2 * unat d2) + unat e1" using div10 by simp
  then have mod10: "unat q0 div 10 mod 10 = unat e1 mod 10"
    and div100: "unat q0 div 100 = 40 * unat d3 + unat e2"
    unfolding tens(1) by10 ue2 uq1
    by (simp_all add: mod_mult_self4 div_mult_self4 del: distrib_left_numeral)
  have le1': "unat e1 \<le> 346" using sums uq ue1 by linarith
  have le2: "unat e2 \<le> 68" using sums uq1 ue2 le1' by linarith
  have uq2: "unat q2 = unat e2 div 10" unfolding q2 by (rule unat_div10_13) (rule le2)
  have ue3: "unat e3 = unat q2 + 4 * unat d3"
    using sums uq2 le2 by (simp add: e3 unat_word_ariths)
  have by100: "unat q0 div 100 = 10 * (4 * unat d3) + unat e2" using div100 by simp
  have mod100: "unat q0 div 100 mod 10 = unat e2 mod 10"
    unfolding by100 by (rule mod_mult_self4)
  have div1000: "unat q0 div 1000 = unat e3"
    unfolding tens(2) by100 ue3 uq2 by (subst div_mult_self4) simp_all
  have le3: "unat e3 \<le> 400" using div1000 bound by linarith
  have uq3: "unat q3 = unat e3 div 10" unfolding q3 by (rule unat_div10_205) (rule le3)
  show "unat (d0 - 10 * q) = unat q0 mod 10" using unat_minus_tens [OF uq] sums by simp
  show "unat (e1 - 10 * q1) = unat q0 div 10 mod 10" using unat_minus_tens [OF uq1] mod10 by simp
  show "unat (e2 - 10 * q2) = unat q0 div 100 mod 10" using unat_minus_tens [OF uq2] mod100 by simp
  show "unat (e3 - 10 * q3) = unat q0 div 1000 mod 10" using unat_minus_tens [OF uq3] div1000 by simp
  show uq3': "unat q3 = unat q0 div 10000" using uq3 div1000 tens(3) by simp
  show "q3 \<noteq> 0 \<longleftrightarrow> 10000 \<le> unat q0"
    by (simp add: le_iff_div uq3' flip: unat_eq_0)
  show "e1 \<noteq> 0 \<longleftrightarrow> 10 \<le> unat q0"
    by (auto simp: le_iff_div div10 ue1 simp flip: unat_eq_0)
  show "e2 \<noteq> 0 \<or> d3 \<noteq> 0 \<longleftrightarrow> 100 \<le> unat q0"
    by (auto simp: le_iff_div div100 simp flip: unat_eq_0)
  show "e3 \<noteq> 0 \<longleftrightarrow> 1000 \<le> unat q0"
    by (simp add: le_iff_div div1000 flip: unat_eq_0)
qed

lemma dec_digits_less_10: "n < 10 \<Longrightarrow> dec_digits n = [digit n]"
  by (simp add: dec_digits.simps)

lemma dec_digits_ge_10: "10 \<le> n \<Longrightarrow> dec_digits n = digit (n mod 10) # dec_digits (n div 10)"
  by (simp add: dec_digits.simps [of n])

lemma dec_digits_5:
  assumes "n < 100000"
  shows "dec_digits n = digit (n mod 10) # (if 10 \<le> n then digit (n div 10 mod 10) #
           (if 100 \<le> n then digit (n div 100 mod 10) #
             (if 1000 \<le> n then digit (n div 1000 mod 10) #
               (if 10000 \<le> n then [digit (n div 10000)] else []) else []) else []) else [])"
proof -
  have step: "dec_digits m = digit (m mod 10) # (if 10 \<le> m then dec_digits (m div 10) else [])" for m
    by (simp add: dec_digits.simps [of m])
  have "dec_digits (n div 10000) = [digit (n div 10000)]"
    using assms by (intro dec_digits_less_10) simp
  then have "dec_digits (n div 1000) = digit (n div 1000 mod 10) #
      (if 10000 \<le> n then [digit (n div 10000)] else [])"
    unfolding step [of "n div 1000"] by (auto simp: div_mult2_eq [symmetric])
  then have "dec_digits (n div 100) = digit (n div 100 mod 10) #
      (if 1000 \<le> n then digit (n div 1000 mod 10) #
        (if 10000 \<le> n then [digit (n div 10000)] else []) else [])"
    unfolding step [of "n div 100"] by (auto simp: div_mult2_eq [symmetric])
  then have "dec_digits (n div 10) = digit (n div 10 mod 10) #
      (if 100 \<le> n then digit (n div 100 mod 10) #
        (if 1000 \<le> n then digit (n div 1000 mod 10) #
          (if 10000 \<le> n then [digit (n div 10000)] else []) else []) else [])"
    unfolding step [of "n div 10"] by (auto simp: div_mult2_eq [symmetric])
  then show ?thesis unfolding step [of n] by simp
qed

lemma put_dec_trunc_digits:
  assumes "unat q0 < 100000"
  shows "put_dec_trunc q0 = dec_digits (unat q0)"
  unfolding put_dec_trunc_def Let_def digit_char_eq dec_digits_5 [OF assms]
    nibble_chain [OF assms refl refl refl refl refl refl refl refl refl refl refl] ..

lemma put_dec_full_digits:
  assumes "unat q0 < 100000"
  shows "put_dec_full q0 = map (\<lambda>i. digit (unat q0 div 10 ^ i mod 10)) [0..<5]"
proof -
  have "unat q0 div 10000 < 10" using assms by simp
  then show ?thesis
    unfolding put_dec_full_def Let_def digit_char_eq
      nibble_chain [OF assms refl refl refl refl refl refl refl refl refl refl refl]
    by (simp add: upt_rec)
qed

lemma dec_digits_low:
  "10 ^ k \<le> n \<Longrightarrow> dec_digits n = map (\<lambda>i. digit (n div 10 ^ i mod 10)) [0..<k] @ dec_digits (n div 10 ^ k)"
proof (induction k arbitrary: n)
  case (Suc k)
  have "10 \<le> n" "10 ^ k \<le> n div 10"
    using Suc.prems order_trans [of 10 "10 ^ Suc k" n] by (auto simp: less_eq_div_iff_mult_less_eq mult.commute)
  then show ?case
    using Suc.IH [of "n div 10"]
    by (simp add: dec_digits_ge_10 map_upt_Suc div_mult2_eq del: upt_Suc)
qed simp

lemma low_digit: "i < k \<Longrightarrow> n mod 10 ^ k div 10 ^ i mod 10 = n div 10 ^ i mod (10 :: nat)"
proof -
  assume i: "i < k"
  then have k: "(10 :: nat) ^ k = 10 ^ i * 10 ^ (k - i)" by (simp flip: power_add)
  have "n mod 10 ^ k div 10 ^ i = n div 10 ^ i mod 10 ^ (k - i)"
    unfolding k by (simp add: mod_mult2_eq)
  moreover have "(10 :: nat) dvd 10 ^ (k - i)" using i by simp
  ultimately show ?thesis by (simp add: mod_mod_cancel)
qed

lemma put_dec_step:
  assumes "100000 \<le> unat num" and IH: "put_dec (num div 100000) = dec_digits (unat (num div 100000))"
  shows "put_dec num = dec_digits (unat num)"
proof -
  have rem: "unat (ucast (num mod 100000) :: u32) = unat num mod 100000"
    by (simp add: unsigned_ucast_eq take_bit_eq_mod unat_mod)
  have "put_dec_full (ucast (num mod 100000)) =
      map (\<lambda>i. digit (unat num mod 100000 div 10 ^ i mod 10)) [0..<5]"
    by (simp only: put_dec_full_digits rem mod_less_divisor zero_less_numeral)
  also have "\<dots> = map (\<lambda>i. digit (unat num div 10 ^ i mod 10)) [0..<5]"
    using low_digit [of _ 5 "unat num"] by (intro map_cong) auto
  finally have "put_dec num = map (\<lambda>i. digit (unat num div 10 ^ i mod 10)) [0..<5]
      @ dec_digits (unat num div 10 ^ 5)"
    using assms by (simp only: put_dec.simps [of num] word_less_nat_alt IH unat_div) simp
  then show ?thesis using dec_digits_low [of 5 "unat num"] assms by simp
qed

lemma put_dec_digits: "put_dec num = dec_digits (unat num)"
proof (induction num rule: put_dec.induct)
  case (1 num)
  show ?case
  proof (cases "num < 100000")
    case True
    then have "unat (ucast num :: u32) = unat num"
      by (simp add: word_less_nat_alt unsigned_ucast_eq take_bit_eq_mod)
    then show ?thesis
      using True by (simp add: put_dec.simps [of num] put_dec_trunc_digits word_less_nat_alt)
  next
    case False
    then show ?thesis using put_dec_step [of num] 1 by (simp add: word_less_nat_alt)
  qed
qed

lemma length_dec_digits: "n < 10 ^ k \<Longrightarrow> 0 < k \<Longrightarrow> length (dec_digits n) \<le> k"
proof (induction k arbitrary: n)
  case (Suc k)
  show ?case
  proof (cases "n < 10")
    case False
    then have "n div 10 < 10 ^ k" "0 < k"
      using Suc.prems by (auto simp: less_mult_imp_div_less mult.commute intro: gr0I)
    then show ?thesis using False Suc.IH [of "n div 10"] by (simp add: dec_digits_ge_10)
  qed (simp add: dec_digits_less_10)
qed simp

lemma length_put_dec: "length (put_dec n) \<le> 20"
  using unat_u64_less [of n] length_dec_digits [of "unat n" 20] by (simp add: put_dec_digits)

lemma length_dec_u64: "length (dec (unat (n :: u64))) \<le> 20"
  using length_put_dec [of n] by (simp add: put_dec_digits dec_def)

section \<open>What the formats of the scrubber print\<close>

lemma sint_of_int_u16: "- 32768 \<le> k \<Longrightarrow> k < 32768 \<Longrightarrow> sint (of_int k :: u16) = k"
  by (simp add: signed_of_int signed_take_bit_int_eq_self)

lemma pad_none:
  assumes "- 32767 \<le> k" "k \<le> 0"
  shows "pad c (of_int k) = ([], of_int (k - 1))"
  using assms sint_of_int_u16 [of "k - 1"] by (simp add: pad.simps)

lemma pad_zero_none: "i < 32768 \<Longrightarrow> pad_zero i (of_nat i) = []"
  using sint_of_int_u16 [of "int i - 1"] by (simp add: pad_zero.simps)

definition plain_spec :: "printf_spec \<Rightarrow> bool" where
  "plain_spec spec \<longleftrightarrow> ps_base spec = 10 \<and> ps_field_width spec = - 1 \<and> ps_precision spec = - 1"

text \<open>The decimal text of a C integer.\<close>

definition dec_int :: "int \<Rightarrow> string" where
  "dec_int k = (if k < 0 then CHR ''-'' # dec (nat (- k)) else dec (nat k))"

lemma digit_0: "digit 0 = CHR ''0''"
  by code_simp

lemma tmp_digits:
  "base = 10 \<Longrightarrow>
     (if num = 0 then ''0'' else if base \<noteq> (10 :: u8) then t else put_dec num) = dec_digits (unat num)"
  by (simp add: put_dec_digits dec_digits_less_10 digit_0)

text \<open>The end of \<open>number\<close> with nothing to pad.\<close>

lemma number_unpadded:
  assumes "length tmp \<le> 20" "- 2 \<le> k" "k \<le> - 1"
  shows "(case pad a (of_int k - of_nat (length tmp)) of (lead, w3) \<Rightarrow>
            case pad b w3 of (fill, w4) \<Rightarrow>
            case pad c w4 of (trail, w5) \<Rightarrow>
              lead @ sign @ fill @ pad_zero (length tmp) (of_nat (length tmp)) @ rev tmp @ trail)
         = sign @ rev tmp"
proof -
  have w: "of_int k - of_nat (length tmp) = (of_int (k - int (length tmp)) :: u16)" by simp
  show ?thesis
    unfolding w using assms by (simp add: pad_none pad_zero_none del: of_int_diff)
qed

lemma unat_of_signed:
  fixes num :: u64
  shows "0 \<le> sint num \<Longrightarrow> unat num = nat (sint num)" "sint num < 0 \<Longrightarrow> unat (- num) = nat (- sint num)"
proof -
  have range: "- (2 ^ 63) \<le> sint num" "sint num < 2 ^ 63"
    using sint_greater_eq [of num] sint_less [of num] by simp_all
  have of_int: "0 \<le> k \<Longrightarrow> k < 2 ^ 64 \<Longrightarrow> unat (of_int k :: u64) = nat k" for k
    by (simp add: unsigned_of_int take_bit_int_eq_self)
  show "0 \<le> sint num \<Longrightarrow> unat num = nat (sint num)"
    using of_int [of "sint num"] range by simp
  show "sint num < 0 \<Longrightarrow> unat (- num) = nat (- sint num)"
    using of_int [of "- sint num"] range by simp
qed

lemma number_unsigned:
  assumes "plain_spec spec" "ps_flags spec = 0"
  shows "number num spec = dec (unat num)"
proof -
  have len: "length (dec_digits (unat num)) \<le> 20" using length_dec_u64 [of num] by (simp add: dec_def)
  show ?thesis
    using assms number_unpadded [where k = "- 1" and sign = "[]", OF len]
    unfolding number_def sign_prefix_def plain_spec_def
    by (simp add: Let_def tmp_digits dec_def split del: if_split)
qed

lemma number_signed:
  assumes "plain_spec spec" "ps_flags spec = SIGN"
  shows "number num spec = dec_int (sint num)"
proof (cases "sint num < 0")
  case True
  have len: "length (dec_digits (unat (- num))) \<le> 20"
    using length_dec_u64 [of "- num"] by (simp add: dec_def)
  have "number num spec = ''-'' @ rev (dec_digits (unat (- num)))"
    using assms True number_unpadded [where k = "- 2" and sign = "''-''", OF len]
      tmp_digits [of "ps_base spec" "- num"]
    unfolding number_def sign_prefix_def plain_spec_def
    by (simp add: Let_def split del: if_split)
  then show ?thesis using True by (simp add: dec_int_def dec_def unat_of_signed(2))
next
  case False
  have len: "length (dec_digits (unat num)) \<le> 20" using length_dec_u64 [of num] by (simp add: dec_def)
  have "number num spec = rev (dec_digits (unat num))"
    using assms False number_unpadded [where k = "- 1" and sign = "[]", OF len]
    unfolding number_def sign_prefix_def plain_spec_def
    by (simp add: Let_def tmp_digits split del: if_split)
  then show ?thesis using False by (simp add: dec_int_def dec_def unat_of_signed(1))
qed

text \<open>
  \<open>prints fmt args out\<close>: whatever specification is left over from before, the loop passes over
  exactly \<open>out\<close>. The rules below read off the output of a format character by character.
\<close>

definition prints :: "string \<Rightarrow> printf_arg list \<Rightarrow> string \<Rightarrow> bool" where
  "prints fmt args out \<longleftrightarrow> (\<forall>spec. \<not> awaits_arg spec \<longrightarrow> vformat fmt spec args = Some out)"

lemma printsD: "prints fmt args out \<Longrightarrow> \<not> awaits_arg spec \<Longrightarrow> vformat fmt spec args = Some out"
  by (simp add: prints_def)

named_theorems prints_rules "how a format prints"

lemma prints_Nil [prints_rules]: "prints [] args []"
  by (simp add: prints_def vformat.simps)

lemma prints_char [prints_rules]:
  assumes c: "c \<noteq> CHR ''%''" and rest: "prints fmt args out"
  shows "prints (c # fmt) args (c # out)"
  unfolding prints_def
proof (intro allI impI)
  fix spec :: printf_spec
  assume spec: "\<not> awaits_arg spec"
  define r where "r = fd_literal fmt"
  define sp where "sp = spec \<lparr> ps_type := FORMAT_TYPE_NONE \<rparr>"
  have sp: "\<not> awaits_arg sp" by (simp add: sp_def)
  have len: "length r \<le> length fmt" by (simp add: r_def length_fd_literal)
  have "fd_literal (c # fmt) = r" using c by (simp add: r_def)
  moreover have "r \<noteq> c # fmt" using len by auto
  ultimately have step: "vformat (c # fmt) spec args =
      map_option ((@) (take (Suc (length fmt) - length r) (c # fmt))) (vformat r sp args)"
    by (simp add: vformat.simps [of "c # fmt"] format_decode_literal spec vformat_step_def sp_def)
  have "\<exists>z. vformat r sp args = Some z \<and> out = take (length fmt - length r) fmt @ z"
  proof (cases "r = fmt")
    case True
    then show ?thesis using printsD [OF rest sp] by simp
  next
    case False
    then have ne: "fmt \<noteq> []" by (auto simp: r_def)
    show ?thesis
      using printsD [OF rest spec] False ne
      by (auto simp: vformat.simps [of fmt] format_decode_literal spec vformat_step_def sp_def r_def)
  qed
  then show "vformat (c # fmt) spec args = Some (c # out)"
    using len step by (auto simp: Suc_diff_le)
qed

lemma conversion_chars:
  "flag_of CHR ''l'' = None" "flag_of CHR ''d'' = None" "flag_of CHR ''s'' = None"
  "isdigit CHR ''l'' = False" "isdigit CHR ''d'' = False" "isdigit CHR ''s'' = False"
  "TOLOWER CHR ''l'' = CHR ''l''" "TOLOWER CHR ''d'' = CHR ''d''" "TOLOWER CHR ''s'' = CHR ''s''"
  "TOLOWER CHR ''L'' = CHR ''l''" "TOLOWER CHR 0xFF = CHR 0xFF"
  by code_simp+

lemmas decode_defs = fd_precision_def fd_qualifier_def fd_conversion_def number_type_def Let_def

lemma decode_llu:
  "\<not> awaits_arg spec \<Longrightarrow> format_decode (CHR ''%'' # CHR ''l'' # CHR ''l'' # CHR ''u'' # rest) spec =
     (rest, \<lparr> ps_type = FORMAT_TYPE_LONG_LONG, ps_flags = 0, ps_base = 10, ps_qualifier = CHR ''L'',
              ps_field_width = - 1, ps_precision = - 1 \<rparr>)"
  by (simp add: format_decode_percent conversion_chars decode_defs)

lemma decode_d:
  "\<not> awaits_arg spec \<Longrightarrow> format_decode (CHR ''%'' # CHR ''d'' # rest) spec =
     (rest, \<lparr> ps_type = FORMAT_TYPE_INT, ps_flags = SIGN, ps_base = 10, ps_qualifier = CHR 0xFF,
              ps_field_width = - 1, ps_precision = - 1 \<rparr>)"
  by (simp add: format_decode_percent conversion_chars decode_defs)

lemma decode_s:
  "\<not> awaits_arg spec \<Longrightarrow> format_decode (CHR ''%'' # CHR ''s'' # rest) spec =
     (rest, \<lparr> ps_type = FORMAT_TYPE_STR, ps_flags = 0, ps_base = 10, ps_qualifier = CHR 0xFF,
              ps_field_width = - 1, ps_precision = - 1 \<rparr>)"
  by (simp add: format_decode_percent conversion_chars decode_defs)

lemma prints_llu [prints_rules]:
  "prints rest args out \<Longrightarrow> prints (CHR ''%'' # CHR ''l'' # CHR ''l'' # CHR ''u'' # rest)
     (Arg64 n # args) (dec (unat n) @ out)"
  by (simp add: prints_def vformat.simps [of "CHR ''%'' # _"] decode_llu vformat_step_def
      number_arg_def number_unsigned plain_spec_def)

lemma sint_scast_u64: "sint (scast (n :: u32) :: u64) = sint n"
proof -
  have "- (2 ^ 31) \<le> sint n" "sint n < 2 ^ 31" using sint_greater_eq [of n] sint_less [of n] by simp_all
  then show ?thesis by (simp add: signed_scast_eq signed_take_bit_int_eq_self)
qed

lemma prints_d [prints_rules]:
  "prints rest args out \<Longrightarrow> prints (CHR ''%'' # CHR ''d'' # rest)
     (Arg32 n # args) (dec_int (sint n) @ out)"
  by (simp add: prints_def vformat.simps [of "CHR ''%'' # _"] decode_d vformat_step_def
      number_arg_def number_signed plain_spec_def sint_scast_u64)

lemma pad_str_none: "- 32767 \<le> k \<Longrightarrow> k \<le> 0 \<Longrightarrow> pad_str len (of_int k) = ([], of_int (k - 1))"
  using sint_of_int_u16 [of k] by (simp add: pad_str.simps)

lemma string_out_plain:
  assumes "plain_spec spec" "ps_flags spec = 0" "is_cstring s" "length s < 2 ^ 64"
  shows "string_out (Some s) spec = s"
proof -
  have "unat (scast (- 1 :: u16) :: u64) = 2 ^ 64 - 1"
    by (simp add: unsigned_minus_1_eq_mask mask_eq_exp_minus_1)
  then have len: "strnlen s (unat (scast (- 1 :: u16) :: u64)) = length s"
    using assms(3,4) by (simp add: strnlen_cstring)
  show ?thesis
    using assms pad_str_none [of "- 1"] pad_str_none [of "- 2"] len
    by (simp add: string_out_def plain_spec_def)
qed

lemma prints_s [prints_rules]:
  "prints rest args out \<Longrightarrow> is_cstring s \<Longrightarrow> length s < 2 ^ 64 \<Longrightarrow>
     prints (CHR ''%'' # CHR ''s'' # rest) (ArgStr (Some s) # args) (s @ out)"
  by (simp add: prints_def vformat.simps [of "CHR ''%'' # _"] decode_s vformat_step_def
      string_out_plain plain_spec_def)

lemma sprintf_prints:
  assumes "prints fmt args out" "length out < 0x7fffffff"
  shows "sprintf fmt args = Some (Some out, int (length out))"
proof -
  have "vformat fmt zero_spec args = Some out"
    using printsD [OF assms(1), of zero_spec] by (simp add: zero_spec_def)
  then show ?thesis using assms(2) by (simp add: sprintf_def vsnprintf_def s32_of_def)
qed

section \<open>Reading back what was printed\<close>

lemma of_char_digit: "d < 10 \<Longrightarrow> of_char (digit d) = d + 48"
  by (simp add: digit_def chr_def)

lemma isdigit_digit [simp]: "d < 10 \<Longrightarrow> isdigit (digit d)"
  by (simp add: isdigit_def of_char_digit)

lemma digit_value_digit: "d < 10 \<Longrightarrow> digit_value (digit d) = of_nat d"
  by (simp add: digit_value_def of_char_digit)

lemma strtoull_digit:
  assumes "d < 10"
  shows "strtoull_loop (digit d # cp) 10 acc = strtoull_loop cp 10 (acc * 10 + of_nat d)"
proof -
  have "of_nat d < (10 :: u32)" using assms by (simp add: word_less_nat_alt unat_of_nat)
  moreover have "ucast (of_nat d :: u32) = (of_nat d :: u64)"
    using assms by (simp add: unsigned_of_nat take_bit_nat_eq_self)
  ultimately show ?thesis
    using assms by (simp add: isxdigit_def digit_value_digit)
qed

lemma dec_less_10: "n < 10 \<Longrightarrow> dec n = [digit n]"
  by (simp add: dec_def dec_digits_less_10)

lemma dec_ge_10: "10 \<le> n \<Longrightarrow> dec n = dec (n div 10) @ [digit (n mod 10)]"
  by (simp add: dec_def dec_digits_ge_10)

lemma strtoull_dec: "strtoull_loop (dec n @ rest) 10 0 = strtoull_loop rest 10 (of_nat n)"
proof (induction n arbitrary: rest rule: less_induct)
  case (less n)
  show ?case
  proof (cases "n < 10")
    case True
    then show ?thesis by (simp add: dec_less_10 strtoull_digit del: strtoull_loop.simps)
  next
    case False
    have "of_nat (n div 10) * 10 + of_nat (n mod 10) = (of_nat n :: u64)"
      by (metis div_mult_mod_eq of_nat_add of_nat_mult of_nat_numeral)
    then show ?thesis
      using False less.IH [of "n div 10" "digit (n mod 10) # rest"]
      by (simp add: dec_ge_10 strtoull_digit del: strtoull_loop.simps)
  qed
qed

lemma digit_value_letter: "\<not> isdigit c \<Longrightarrow> \<not> digit_value c < 10"
proof -
  assume "\<not> isdigit c"
  then have v: "digit_value c = of_nat (of_char (TOLOWER c) - 97 + 10)" by (simp add: digit_value_def)
  have "(of_char (TOLOWER c) :: nat) < 256" by (rule nat_of_char_less_256)
  then have "of_char (TOLOWER c) - 97 < (256 :: nat)" by (rule less_imp_diff_less)
  then have "of_char (TOLOWER c) - 97 + 10 < (2 :: nat) ^ 32" by simp
  then have "unat (digit_value c) = of_char (TOLOWER c) - 97 + 10"
    unfolding v by (rule unat_of_nat_u32)
  then show ?thesis by (simp add: word_less_nat_alt)
qed

lemma strtoull_stop:
  "rest = [] \<or> \<not> isdigit (hd rest) \<Longrightarrow> strtoull_loop rest 10 acc = (acc, rest)"
  using digit_value_letter by (cases rest) auto

lemma strtoull_reads_dec:
  assumes "rest = [] \<or> \<not> isdigit (hd rest)"
  shows "simple_strtoull (dec n @ rest) 10 = (of_nat n, rest)"
  using strtoull_stop [OF assms] by (simp add: simple_strtoull_def strtoull_dec)

lemma not_isdigit [simp]: "\<not> isdigit NL" "\<not> isdigit CHR '' ''"
  by code_simp+

text \<open>
  C31: The decimal conversion of \<open>vsprintf\<close>, which divides by ten with multiplications and shifts
  only, five digits at a time, writes exactly the decimal digits of every 64-bit number, least
  significant first, in at most 20 of the 66 bytes of \<open>number\<close>'s buffer.
\<close>

theorem put_dec_writes_decimal:
  "put_dec num = dec_digits (unat num) \<and> length (put_dec num) \<le> 20"
  using put_dec_digits length_put_dec by blast

text \<open>
  C32: What \<open>sprintf\<close> prints for \<open>%llu\<close> and a newline, \<open>simple_strtoull\<close> reads back in base 10: the
  same number, for every 64-bit value, and it stops at the newline.
\<close>

theorem sprintf_strtoull_roundtrip:
  "\<exists>text. sprintf (''%llu'' @ [NL]) [Arg64 n] = Some (Some text, int (length text))
     \<and> simple_strtoull text 10 = (n, [NL])"
proof -
  have "prints (''%llu'' @ [NL]) [Arg64 n] (dec (unat n) @ [NL])"
    by (simp, intro prints_rules) simp
  then show ?thesis
    using sprintf_prints [of "''%llu'' @ [NL]" "[Arg64 n]" "dec (unat n) @ [NL]"] length_dec_u64 [of n]
      strtoull_reads_dec [of "[NL]" "unat n"]
    by simp
qed



end
