(* ===== verification/Scrub_Sysfs.thy ===== *)
theory Scrub_Sysfs
  imports Vsprintf Scrub_Types
begin

text \<open>
  The sysfs interface of the scrubber, \<^verbatim>\<open>block/scrub.c\<close>: one show and one store operation per
  attribute, the table of the attributes, and the dispatch \<open>scrub_attr_show\<close> and
  \<open>scrub_attr_store\<close>. The text that \<open>page\<close> points to is a \<open>string\<close>, the capacity of the disk
  (\<open>get_capacity (s->disk)\<close>) an argument. \<open>sysfs_lock\<close> makes each operation one step.

  A show operation gives the text left in the page and the return value. A store operation
  gives the new scrubber, what the kernel was asked to do meanwhile, and the return value.
  \<open>None\<close> is a write past the end of a buffer.
\<close>

section \<open>Effects\<close>

datatype kernel_action = Printk string "printf_arg list" | Wake_up_process

type_synonym show_op = "disk_scrubber \<Rightarrow> (string \<times> int) option"
type_synonym store_op =
  "u64 \<Rightarrow> disk_scrubber \<Rightarrow> string \<Rightarrow> u64 \<Rightarrow> (disk_scrubber \<times> kernel_action list \<times> int) option"

definition to_page :: "string \<Rightarrow> printf_arg list \<Rightarrow> (string \<times> int) option" where
  "to_page fmt args = (case sprintf fmt args of Some (Some text, n) \<Rightarrow> Some (text, n) | _ \<Rightarrow> None)"

abbreviation int_arg :: "int \<Rightarrow> printf_arg" where
  "int_arg k \<equiv> Arg32 (of_int k)"

text \<open>\<open>len = strlen(p); if (len && p[len-1] == '\n') p[len-1] = '\0';\<close>\<close>

definition chomp :: "string \<Rightarrow> string" where
  "chomp p =
     (let len = strlen p in
      if len \<noteq> 0 \<and> char_at p (len - 1) = NL then take (len - 1) p else take len p)"

definition complain :: "disk_scrubber \<Rightarrow> string \<Rightarrow> string \<Rightarrow> kernel_action list" where
  "complain s msg p = [Printk msg [ArgStr (Some (ds_disk_name s)), ArgStr (Some p)]]"

definition warn :: "disk_scrubber \<Rightarrow> string \<Rightarrow> kernel_action list" where
  "warn s msg = [Printk msg [ArgStr (Some (ds_disk_name s))]]"

section \<open>Numbers\<close>

definition scrub_reqbound_show :: show_op where
  "scrub_reqbound_show s =
     to_page (''Scrubbing requests to limit next round to: %llu'' @ [NL]) [Arg64 (ds_reqbound s)]"

text \<open>The comparison \<open>reqbound < 0\<close> is on an \<open>unsigned long\<close>.\<close>

definition scrub_reqbound_store :: store_op where
  "scrub_reqbound_store capacity s page count =
     (let reqbound = fst (simple_strtoul page 10) in
      if reqbound < 0
      then Some (s, warn s (''scrubber (%s): cannot set request bound to a negative number.'' @ [NL]),
                 sint count)
      else Some (s\<lparr>ds_reqbound := reqbound\<rparr>, [], sint count))"

definition scrub_segsize_show :: show_op where
  "scrub_segsize_show s = to_page (''Segment size: %llu KB'' @ [NL]) [Arg64 (ds_segsize s)]"

definition scrub_segsize_store :: store_op where
  "scrub_segsize_store capacity s page count =
     (let segsize = fst (simple_strtoull page 10) in
      if segsize = 0
      then Some (s, warn s (''scrubber (%s): cannot set segsize to 0 KB.'' @ [NL]), sint count)
      else if ds_segsize s > capacity then Some (s\<lparr>ds_segsize := capacity\<rparr>, [], sint count)
      else Some (s\<lparr>ds_segsize := segsize\<rparr>, [], sint count))"

definition scrub_regsize_show :: show_op where
  "scrub_regsize_show s = to_page (''Region size: %llu KB'' @ [NL]) [Arg64 (ds_regsize s)]"

definition scrub_regsize_store :: store_op where
  "scrub_regsize_store capacity s page count =
     (let regsize = fst (simple_strtoull page 10) in
      if regsize = 0
      then Some (s, warn s (''scrubber (%s): cannot set regsize to 0 KB.'' @ [NL]), sint count)
      else if ds_regsize s > capacity then Some (s\<lparr>ds_regsize := capacity\<rparr>, [], sint count)
      else Some (s\<lparr>ds_regsize := regsize\<rparr>, [], sint count))"

definition scrub_spoint_show :: show_op where
  "scrub_spoint_show s =
     to_page (''Scrubbing starts at sector: %llu'' @ [NL]) [Arg64 (ds_spoint s)]"

definition scrub_spoint_store :: store_op where
  "scrub_spoint_store capacity s page count =
     (let spoint = fst (simple_strtoull page 10) in
      if ds_spoint s > capacity
      then Some (s\<lparr>ds_spoint := 0\<rparr>,
        warn s (''scrubber (%s): scrubbing starting point exceeds disk capacity.'' @ [NL]), sint count)
      else Some (s\<lparr>ds_spoint := spoint\<rparr>, [], sint count))"

definition scrub_scount_show :: show_op where
  "scrub_scount_show s =
     to_page (''# of sectors to be scrubbed: %llu'' @ [NL]) [Arg64 (ds_scount s)]"

definition scrub_scount_store :: store_op where
  "scrub_scount_store capacity s page count =
     (let scount = fst (simple_strtoull page 10) in
      if ds_scount s > capacity
      then Some (s\<lparr>ds_scount := capacity\<rparr>,
        warn s (''scrubber (%s): requested scrubbing area larger than disk.'' @ [NL]), sint count)
      else Some (s\<lparr>ds_scount := scount\<rparr>, [], sint count))"

section \<open>Names\<close>

text \<open>
  The loop over the names: every call of \<open>sprintf (page + len, ...)\<close> continues where the last one
  has put its terminator.
\<close>

fun names_show :: "string list \<Rightarrow> string \<Rightarrow> string \<times> int \<Rightarrow> (string \<times> int) option" where
  "names_show [] cur (page, len) =
     map_option (\<lambda>(t, n). (page @ t, len + n)) (to_page [NL] [])"
| "names_show (name # names) cur (page, len) =
     (case to_page (if strcmp cur name = 0 then ''[%s] '' else ''%s '') [ArgStr (Some name)] of
        Some (t, n) \<Rightarrow> names_show names cur (page @ t, len + n)
      | None \<Rightarrow> None)"

text \<open>
  \<open>sprintf (buf, "%s", p)\<close> into a buffer of \<open>room\<close> bytes, with the terminator.
\<close>

definition name_into :: "nat \<Rightarrow> string \<Rightarrow> string option" where
  "name_into room p =
     (case to_page ''%s'' [ArgStr (Some p)] of
        Some (t, n) \<Rightarrow> if length t < room then Some t else None
      | None \<Rightarrow> None)"

fun names_store :: "nat \<Rightarrow> string list \<Rightarrow> string \<Rightarrow> int \<times> string \<Rightarrow> (int \<times> string) option" where
  "names_store room [] p (flag, cur) = Some (flag, cur)"
| "names_store room (name # names) p (flag, cur) =
     (if strcmp p name = 0 then
        (if strcmp p cur \<noteq> 0 then
           (case name_into room p of Some t \<Rightarrow> names_store room names p (2, t) | None \<Rightarrow> None)
         else names_store room names p (1, cur))
      else names_store room names p (flag, cur))"

definition scrub_strategy_show :: show_op where
  "scrub_strategy_show s = names_show strategies (ds_strategy s) ([], 0)"

definition scrub_strategy_store :: store_op where
  "scrub_strategy_store capacity s page count =
     (let p = chomp page in
      map_option (\<lambda>(flag, name). (s\<lparr>ds_strategy := name\<rparr>,
          (if flag = 0 then complain s (''scrubber (%s): strategy '%s' not found.'' @ [NL]) p
           else if flag = 1
           then complain s (''scrubber (%s): strategy already set to '%s'.'' @ [NL]) p
           else []), sint count))
        (names_store SCRUB_STRAT_NAME_MAX strategies p (0, ds_strategy s)))"

definition scrub_priority_show :: show_op where
  "scrub_priority_show s = names_show priorities (ds_priority s) ([], 0)"

definition scrub_priority_store :: store_op where
  "scrub_priority_store capacity s page count =
     (let p = chomp page in
      map_option (\<lambda>(flag, name). (s\<lparr>ds_priority := name\<rparr>,
          (if flag = 0 then complain s (''scrubber (%s): priority '%s' not found.'' @ [NL]) p
           else if flag = 1
           then complain s (''scrubber (%s): priority already set to '%s'.'' @ [NL]) p
           else []), sint count))
        (names_store SCRUB_PRIO_NAME_MAX priorities p (0, ds_priority s)))"

section \<open>States\<close>

definition scrub_state_show :: show_op where
  "scrub_state_show s =
     (if ds_state s = 0 then to_page (''Scrubber state: [on] off abort'' @ [NL]) []
      else if ds_state s = 1 then to_page (''Scrubber state: on [off] abort'' @ [NL]) []
      else if ds_state s = 2 then to_page (''Scrubber state: on off [abort]'' @ [NL]) []
      else Some ([], 0))"

definition scrub_state_store :: store_op where
  "scrub_state_store capacity s0 page count =
     (let p = chomp page;
          s = (if ds_state s0 \<noteq> 0 \<and> ds_state s0 \<noteq> 1 \<and> ds_state s0 \<noteq> 2 then s0\<lparr>ds_state := 1\<rparr> else s0)
      in if strcmp p ''on'' = 0 \<and> ds_state s \<noteq> 0
         then Some (s\<lparr>ds_state := 0\<rparr>, [Wake_up_process], sint count)
         else if strcmp p ''off'' = 0 \<and> ds_state s \<noteq> 1 then Some (s\<lparr>ds_state := 1\<rparr>, [], sint count)
         else if strcmp p ''abort'' = 0 \<and> ds_state s \<noteq> 2 then Some (s\<lparr>ds_state := 2\<rparr>, [], sint count)
         else Some (s, complain s
           (''scrubber (%s): state '%s' not found, or coincides with the current one.'' @ [NL]) p,
           sint count))"

definition scrub_threads_show :: show_op where
  "scrub_threads_show s =
     to_page (''Number of scrubbing threads: %d'' @ [NL]) [int_arg (ds_threads s)]"

definition scrub_threads_store :: store_op where
  "scrub_threads_store capacity s page count =
     (let threads = s32_of (fst (simple_strtol page 10)) in
      if threads \<le> 0
      then Some (s, warn s (''scrubber (%s): Check that threads > 0.'' @ [NL]), sint count)
      else Some (s\<lparr>ds_threads := threads\<rparr>, [], sint count))"

definition scrub_dpo_show :: show_op where
  "scrub_dpo_show s =
     (if ds_dpo s \<noteq> 0 then to_page (''Disable page out: [on] off'' @ [NL]) []
      else to_page (''Disable page out:  on [off]'' @ [NL]) [])"

definition scrub_dpo_store :: store_op where
  "scrub_dpo_store capacity s0 page count =
     (let p = chomp page;
          s = (if ds_dpo s0 \<noteq> 0 \<and> ds_dpo s0 \<noteq> 1 then s0\<lparr>ds_dpo := 0\<rparr> else s0)
      in if strcmp p ''on'' = 0 \<and> ds_dpo s = 0 then Some (s\<lparr>ds_dpo := 1\<rparr>, [], sint count)
         else if strcmp p ''off'' = 0 \<and> ds_dpo s \<noteq> 0 then Some (s\<lparr>ds_dpo := 0\<rparr>, [], sint count)
         else Some (s, complain s
           (''scrubber (%s): state '%s' not found, or coincides with the current one.'' @ [NL]) p,
           sint count))"

definition scrub_vrprotect_show :: show_op where
  "scrub_vrprotect_show s = to_page (''VRP set to: %d'' @ [NL]) [int_arg (ds_vrprotect s)]"

definition scrub_vrprotect_store :: store_op where
  "scrub_vrprotect_store capacity s page count =
     (let vrprotect = s32_of (fst (simple_strtol page 10)) in
      if vrprotect < 0 \<or> vrprotect > 7
      then Some (s, warn s (''scrubber (%s): Check that 0 <= vrprotect <= 7.'' @ [NL]), sint count)
      else Some (s\<lparr>ds_vrprotect := vrprotect\<rparr>, [], sint count))"

definition scrub_verbose_show :: show_op where
  "scrub_verbose_show s = to_page (''Verbosity of scrubber: %d'' @ [NL]) [int_arg (ds_verbose s)]"

definition scrub_verbose_store :: store_op where
  "scrub_verbose_store capacity s page count =
     (let verbose = s32_of (fst (simple_strtol page 10)) in
      if verbose < 0 \<or> verbose > 3
      then Some (s, warn s (''scrubber (%s): Check that 0 <= verbose <= 3.'' @ [NL]), sint count)
      else Some (s\<lparr>ds_verbose := verbose\<rparr>, [], sint count))"

definition scrub_timed_show :: show_op where
  "scrub_timed_show s =
     (if ds_timed s \<noteq> 0 then to_page (''Scrubber statistics: [on] off'' @ [NL]) []
      else to_page (''Scrubber statistics:  on [off]'' @ [NL]) [])"

definition scrub_timed_store :: store_op where
  "scrub_timed_store capacity s0 page count =
     (let p = chomp page;
          s = (if ds_timed s0 \<noteq> 0 \<and> ds_timed s0 \<noteq> 1 then s0\<lparr>ds_timed := 0\<rparr> else s0)
      in if strcmp p ''on'' = 0 \<and> ds_timed s = 0 then Some (s\<lparr>ds_timed := 1\<rparr>, [], sint count)
         else if strcmp p ''off'' = 0 \<and> ds_timed s \<noteq> 0 then Some (s\<lparr>ds_timed := 0\<rparr>, [], sint count)
         else Some (s, complain s
           (''scrubber (%s): state '%s' not found, or coincides with the current one.'' @ [NL]) p,
           sint count))"

section \<open>Statistics\<close>

definition scrub_ttime_ms_show :: show_op where
  "scrub_ttime_ms_show s = to_page (''%llu'' @ [NL]) [Arg64 (ds_ttime_ms s)]"

definition scrub_ttime_ms_store :: store_op where
  "scrub_ttime_ms_store capacity s page count =
     Some (s\<lparr>ds_ttime_ms := fst (simple_strtoull page 10)\<rparr>, [], sint count)"

definition scrub_resptime_us_show :: show_op where
  "scrub_resptime_us_show s = to_page (''%llu'' @ [NL]) [Arg64 (ds_resptime_us s)]"

definition scrub_reqcount_show :: show_op where
  "scrub_reqcount_show s = to_page (''%llu'' @ [NL]) [Arg64 (ds_reqcount s)]"

definition scrub_reqcount_store :: store_op where
  "scrub_reqcount_store capacity s page count =
     Some (s\<lparr>ds_reqcount := fst (simple_strtoull page 10)\<rparr>, [], sint count)"

definition scrub_delayms_show :: show_op where
  "scrub_delayms_show s = to_page (''%llu'' @ [NL]) [Arg64 (ds_delayms s)]"

definition scrub_delayms_store :: store_op where
  "scrub_delayms_store capacity s page count =
     Some (s\<lparr>ds_delayms := fst (simple_strtoull page 10)\<rparr>, [], sint count)"

section \<open>The table of the attributes\<close>

record scrub_sysfs_entry =
  en_name :: string
  en_mode :: u16
  en_show :: "show_op option"
  en_store :: "store_op option"

abbreviation (input) S_IRUGO :: u16 where "S_IRUGO \<equiv> 0x124"
abbreviation (input) S_IWUSR :: u16 where "S_IWUSR \<equiv> 0x80"

definition rw_entry :: "string \<Rightarrow> show_op \<Rightarrow> store_op \<Rightarrow> scrub_sysfs_entry" where
  "rw_entry name sh st =
     \<lparr>en_name = name, en_mode = S_IRUGO OR S_IWUSR, en_show = Some sh, en_store = Some st\<rparr>"

definition default_attrs :: "scrub_sysfs_entry list" where
  "default_attrs =
    [rw_entry ''reqbound'' scrub_reqbound_show scrub_reqbound_store,
     rw_entry ''segsize'' scrub_segsize_show scrub_segsize_store,
     rw_entry ''regsize'' scrub_regsize_show scrub_regsize_store,
     rw_entry ''spoint'' scrub_spoint_show scrub_spoint_store,
     rw_entry ''scount'' scrub_scount_show scrub_scount_store,
     rw_entry ''strategy'' scrub_strategy_show scrub_strategy_store,
     rw_entry ''priority'' scrub_priority_show scrub_priority_store,
     rw_entry ''state'' scrub_state_show scrub_state_store,
     rw_entry ''threads'' scrub_threads_show scrub_threads_store,
     rw_entry ''dpo'' scrub_dpo_show scrub_dpo_store,
     rw_entry ''vrprotect'' scrub_vrprotect_show scrub_vrprotect_store,
     rw_entry ''verbose'' scrub_verbose_show scrub_verbose_store,
     rw_entry ''timed'' scrub_timed_show scrub_timed_store,
     rw_entry ''ttime_ms'' scrub_ttime_ms_show scrub_ttime_ms_store,
     \<lparr>en_name = ''resptime_us'', en_mode = S_IRUGO, en_show = Some scrub_resptime_us_show,
      en_store = None\<rparr>,
     rw_entry ''reqcount'' scrub_reqcount_show scrub_reqcount_store,
     rw_entry ''delayms'' scrub_delayms_show scrub_delayms_store]"

definition scrub_attr_show :: "scrub_sysfs_entry \<Rightarrow> disk_scrubber \<Rightarrow> (string \<times> int) option" where
  "scrub_attr_show entry s =
     (case en_show entry of None \<Rightarrow> Some ([], - EIO) | Some sh \<Rightarrow> sh s)"

definition scrub_attr_store :: "scrub_sysfs_entry \<Rightarrow> store_op" where
  "scrub_attr_store entry capacity s page count =
     (case en_store entry of None \<Rightarrow> Some (s, [], - EIO) | Some st \<Rightarrow> st capacity s page count)"

section \<open>What the attributes show\<close>

lemma to_page_prints:
  "prints fmt args out \<Longrightarrow> length out < 0x7fffffff \<Longrightarrow> to_page fmt args = Some (out, int (length out))"
  by (simp add: to_page_def sprintf_prints)

lemma sint_of_int_u32: "- (2 ^ 31) \<le> k \<Longrightarrow> k < 2 ^ 31 \<Longrightarrow> sint (of_int k :: u32) = k"
  by (simp add: signed_of_int signed_take_bit_int_eq_self)

text \<open>A label, the number in decimal, and the rest of the line.\<close>

definition line :: "string \<Rightarrow> string \<Rightarrow> string \<Rightarrow> (string \<times> int) option" where
  "line label value rest = Some (label @ value @ rest @ [NL], int (length (label @ value @ rest @ [NL])))"

lemma prints_text: "CHR ''%'' \<notin> set t \<Longrightarrow> prints fmt args out \<Longrightarrow> prints (t @ fmt) args (t @ out)"
  by (induction t) (auto intro: prints_char)

lemma show_u64:
  assumes "CHR ''%'' \<notin> set (label @ rest)" "length (label @ rest) < 1000"
  shows "to_page (label @ ''%llu'' @ rest @ [NL]) [Arg64 n] = line label (dec (unat n)) rest"
proof -
  have "prints (rest @ [NL]) [] (rest @ [NL])"
    using prints_text [of rest "[NL]" "[]" "[NL]"] prints_char [OF _ prints_Nil] assms by simp
  then have "prints (''%llu'' @ rest @ [NL]) [Arg64 n] (dec (unat n) @ rest @ [NL])"
    using prints_llu by simp
  then have "prints (label @ ''%llu'' @ rest @ [NL]) [Arg64 n] (label @ dec (unat n) @ rest @ [NL])"
    using assms by (intro prints_text) simp_all
  then show ?thesis
    unfolding line_def using length_dec_u64 [of n] assms by (intro to_page_prints) simp_all
qed

lemma length_dec_int: "length (dec_int (sint (n :: u32))) \<le> 21"
proof -
  have "- (2 ^ 31) \<le> sint n" "sint n < 2 ^ 31"
    using sint_greater_eq [of n] sint_less [of n] by simp_all
  then have "nat (sint n) < 10 ^ 20" "nat (- sint n) < 10 ^ 20" by simp_all
  then show ?thesis
    using length_dec_digits [of "nat (sint n)" 20] length_dec_digits [of "nat (- sint n)" 20]
    by (simp add: dec_int_def dec_def)
qed

lemma show_int:
  assumes "CHR ''%'' \<notin> set label" "length label < 1000"
  shows "to_page (label @ ''%d'' @ [NL]) [Arg32 n] = line label (dec_int (sint n)) []"
proof -
  have "prints (''%d'' @ [NL]) [Arg32 n] (dec_int (sint n) @ [NL])"
    using prints_d [OF prints_char [OF _ prints_Nil]] by simp
  then have "prints (label @ ''%d'' @ [NL]) [Arg32 n] (label @ dec_int (sint n) @ [NL])"
    using assms by (intro prints_text) simp_all
  then show ?thesis
    unfolding line_def using length_dec_int [of n] assms
    by (simp only: append_Nil) (intro to_page_prints, simp_all)
qed

lemma show_text:
  assumes "CHR ''%'' \<notin> set label" "length label < 1000"
  shows "to_page (label @ [NL]) [] = line label [] []"
proof -
  have "prints (label @ [NL]) [] (label @ [NL])"
    using prints_text [OF assms(1) prints_char [OF _ prints_Nil]] by simp
  then show ?thesis
    unfolding line_def using assms by (simp only: append_Nil) (intro to_page_prints, simp_all)
qed

lemmas number_shows =
  scrub_reqbound_show_def scrub_segsize_show_def scrub_regsize_show_def scrub_spoint_show_def
  scrub_scount_show_def scrub_ttime_ms_show_def scrub_resptime_us_show_def scrub_reqcount_show_def
  scrub_delayms_show_def

lemma number_show_text:
  "scrub_reqbound_show s =
     line ''Scrubbing requests to limit next round to: '' (dec (unat (ds_reqbound s))) []"
  "scrub_segsize_show s = line ''Segment size: '' (dec (unat (ds_segsize s))) '' KB''"
  "scrub_regsize_show s = line ''Region size: '' (dec (unat (ds_regsize s))) '' KB''"
  "scrub_spoint_show s = line ''Scrubbing starts at sector: '' (dec (unat (ds_spoint s))) []"
  "scrub_scount_show s = line ''# of sectors to be scrubbed: '' (dec (unat (ds_scount s))) []"
  "scrub_ttime_ms_show s = line [] (dec (unat (ds_ttime_ms s))) []"
  "scrub_resptime_us_show s = line [] (dec (unat (ds_resptime_us s))) []"
  "scrub_reqcount_show s = line [] (dec (unat (ds_reqcount s))) []"
  "scrub_delayms_show s = line [] (dec (unat (ds_delayms s))) []"
  unfolding number_shows
  by (subst show_u64 [symmetric]; simp)+

lemma int_show_text:
  "scrub_threads_show s = line ''Number of scrubbing threads: '' (dec_int (sint (of_int (ds_threads s) :: u32))) []"
  "scrub_vrprotect_show s = line ''VRP set to: '' (dec_int (sint (of_int (ds_vrprotect s) :: u32))) []"
  "scrub_verbose_show s = line ''Verbosity of scrubber: '' (dec_int (sint (of_int (ds_verbose s) :: u32))) []"
  unfolding scrub_threads_show_def scrub_vrprotect_show_def scrub_verbose_show_def
  by (subst show_int [symmetric]; simp)+

lemma switch_show_text:
  "scrub_dpo_show s =
     line (if ds_dpo s \<noteq> 0 then ''Disable page out: [on] off'' else ''Disable page out:  on [off]'') [] []"
  "scrub_timed_show s =
     line (if ds_timed s \<noteq> 0 then ''Scrubber statistics: [on] off'' else ''Scrubber statistics:  on [off]'') [] []"
  unfolding scrub_dpo_show_def scrub_timed_show_def by (simp_all add: show_text [symmetric])

lemma state_show_text:
  "ds_state s \<in> {0, 1, 2} \<Longrightarrow> scrub_state_show s =
     line (if ds_state s = 0 then ''Scrubber state: [on] off abort''
           else if ds_state s = 1 then ''Scrubber state: on [off] abort''
           else ''Scrubber state: on off [abort]'') [] []"
  unfolding scrub_state_show_def by (auto simp: show_text [symmetric])

text \<open>The list of the names with the current one in brackets.\<close>

definition marked :: "string \<Rightarrow> string \<Rightarrow> string" where
  "marked cur name = (if cur = name then ''['' @ name @ ''] '' else name @ '' '')"

lemma name_page:
  assumes "is_cstring cur" "is_cstring name" "length name < 1000"
  shows "to_page (if strcmp cur name = 0 then ''[%s] '' else ''%s '') [ArgStr (Some name)] =
    Some (marked cur name, int (length (marked cur name)))"
proof -
  have plain: "prints ''%s '' [ArgStr (Some name)] (name @ '' '')"
    using prints_s [OF prints_char [OF _ prints_Nil], of "CHR '' ''" name] assms by simp
  have "prints ''%s] '' [ArgStr (Some name)] (name @ ''] '')"
    using prints_s [OF prints_char [OF _ prints_char [OF _ prints_Nil]], of "CHR '']''" "CHR '' ''" name] assms
    by simp
  then have "prints ''[%s] '' [ArgStr (Some name)] (''['' @ name @ ''] '')"
    using prints_char [of "CHR ''[''"] by simp
  then have "to_page ''[%s] '' [ArgStr (Some name)] = Some (''['' @ name @ ''] '', int (length (''['' @ name @ ''] '')))"
    using assms(3) by (intro to_page_prints) simp_all
  moreover have "to_page ''%s '' [ArgStr (Some name)] = Some (name @ '' '', int (length (name @ '' '')))"
    using plain assms(3) by (intro to_page_prints) simp_all
  ultimately show ?thesis
    using assms by (simp add: strcmp_0 marked_def)
qed

lemma names_show_text:
  assumes "is_cstring cur" "\<forall>name \<in> set names. is_cstring name \<and> length name < 1000"
  shows "names_show names cur (page, len) =
    Some (page @ concat (map (marked cur) names) @ [NL],
          len + int (length (concat (map (marked cur) names) @ [NL])))"
  using assms(2)
proof (induction names arbitrary: page len)
  case Nil
  show ?case using to_page_prints [OF prints_char [OF _ prints_Nil]] by simp
next
  case (Cons name names)
  then show ?case using name_page [OF assms(1), of name] by (simp add: add.assoc)
qed

lemma listed_cstring: "name \<in> set strategies \<union> set priorities \<Longrightarrow> is_cstring name \<and> length name < 10"
  by (auto simp: strategies_def priorities_def is_cstring_def)

lemma names_show_strategies:
  "is_cstring (ds_strategy s) \<Longrightarrow> scrub_strategy_show s =
     line (concat (map (marked (ds_strategy s)) strategies)) [] []"
  unfolding scrub_strategy_show_def line_def
  by (subst names_show_text) (auto dest: listed_cstring [of _, OF UnI1])

lemma names_show_priorities:
  "is_cstring (ds_priority s) \<Longrightarrow> scrub_priority_show s =
     line (concat (map (marked (ds_priority s)) priorities)) [] []"
  unfolding scrub_priority_show_def line_def
  by (subst names_show_text) (auto dest: listed_cstring [of _, OF UnI2])

section \<open>What the attributes accept\<close>

lemma chomp_cstring:
  "is_cstring p \<Longrightarrow> chomp p = (if p \<noteq> [] \<and> last p = NL then butlast p else p)"
  by (cases "p = []")
    (simp_all add: chomp_def Let_def strlen_cstring char_at_def last_conv_nth butlast_conv_take)

lemma is_cstring_chomp [simp]: "is_cstring p \<Longrightarrow> is_cstring (chomp p)"
  by (auto simp: chomp_cstring is_cstring_def dest: in_set_butlastD)

lemma name_into_fits:
  assumes "is_cstring p" "length p < room" "room < 1000"
  shows "name_into room p = Some p"
proof -
  have "prints ''%s'' [ArgStr (Some p)] p"
    using prints_s [OF prints_Nil, of p] assms by simp
  then show ?thesis
    using assms to_page_prints [of "''%s''" "[ArgStr (Some p)]" p] by (simp add: name_into_def)
qed

lemma names_store_result:
  assumes "is_cstring p" "distinct names" "room < 1000"
    and "\<forall>name \<in> set names. is_cstring name \<and> length name < room" and "is_cstring cur"
  shows "names_store room names p (flag, cur) =
    Some (if p \<in> set names then (if p = cur then (1, cur) else (2, p)) else (flag, cur))"
  using assms(2,4,5)
proof (induction names arbitrary: flag cur)
  case (Cons name names)
  show ?case
  proof (cases "p = name")
    case True
    then show ?thesis
      using Cons.IH [of cur 1] Cons.IH [of p 2] Cons.prems assms(1,3) name_into_fits [of p room]
      by (auto simp: strcmp_0)
  next
    case False
    then show ?thesis using Cons.IH [of cur flag] Cons.prems assms(1) by (auto simp: strcmp_0)
  qed
qed simp

text \<open>
  The ranges that the store operations check: what the rest of the scrubber relies on. A size of
  0 is excluded only on a disk that is not empty, since a size above the capacity is replaced by
  the capacity.
\<close>

definition scrubber_wf :: "u64 \<Rightarrow> disk_scrubber \<Rightarrow> bool" where
  "scrubber_wf capacity s \<longleftrightarrow>
     (capacity \<noteq> 0 \<longrightarrow> ds_segsize s \<noteq> 0 \<and> ds_regsize s \<noteq> 0) \<and>
     ds_strategy s \<in> set strategies \<and> ds_priority s \<in> set priorities \<and>
     ds_state s \<in> {STATE_ON, STATE_OFF, STATE_ABORT} \<and>
     1 \<le> ds_threads s \<and> ds_threads s < 2 ^ 31 \<and> ds_dpo s \<in> {0, 1} \<and> ds_timed s \<in> {0, 1} \<and>
     0 \<le> ds_vrprotect s \<and> ds_vrprotect s \<le> 7 \<and> 0 \<le> ds_verbose s \<and> ds_verbose s \<le> 3"

lemma default_scrubber_wf: "scrubber_wf capacity (default_scrubber name)"
  by (simp add: scrubber_wf_def default_scrubber_def strategies_def priorities_def)

lemma wf_names: "scrubber_wf cap s \<Longrightarrow> is_cstring (ds_strategy s) \<and> is_cstring (ds_priority s)"
  using listed_cstring by (auto simp: scrubber_wf_def)

text \<open>A store operation returns, keeps the ranges and reports that it took the whole text.\<close>

definition store_ok :: "store_op \<Rightarrow> bool" where
  "store_ok st \<longleftrightarrow> (\<forall>cap s page count. scrubber_wf cap s \<longrightarrow> is_cstring page \<longrightarrow>
     (\<exists>s' acts. st cap s page count = Some (s', acts, sint count) \<and> scrubber_wf cap s'))"

lemma names_store_listed:
  assumes "names = strategies \<or> names = priorities" "is_cstring p" "is_cstring cur"
  shows "\<exists>flag. names_store 10 names p (0, cur) = Some (flag, if p \<in> set names then p else cur)
    \<and> (flag = 0 \<longleftrightarrow> p \<notin> set names) \<and> (flag = 1 \<longleftrightarrow> p \<in> set names \<and> p = cur)"
proof -
  have "distinct names" using assms(1) by (auto simp: strategies_def priorities_def)
  moreover have "\<forall>name \<in> set names. is_cstring name \<and> length name < 10"
    using assms(1) listed_cstring by auto
  ultimately show ?thesis using assms(2,3) by (simp add: names_store_result)
qed

lemma strategy_store_sets:
  assumes "scrubber_wf cap s" "is_cstring page"
  shows "\<exists>acts. scrub_strategy_store cap s page count =
    Some (s\<lparr>ds_strategy := (if chomp page \<in> set strategies then chomp page else ds_strategy s)\<rparr>, acts, sint count)"
  using names_store_listed [of strategies "chomp page" "ds_strategy s"] assms wf_names [OF assms(1)]
  by (auto simp: scrub_strategy_store_def Let_def)

lemma priority_store_sets:
  assumes "scrubber_wf cap s" "is_cstring page"
  shows "\<exists>acts. scrub_priority_store cap s page count =
    Some (s\<lparr>ds_priority := (if chomp page \<in> set priorities then chomp page else ds_priority s)\<rparr>, acts, sint count)"
  using names_store_listed [of priorities "chomp page" "ds_priority s"] assms wf_names [OF assms(1)]
  by (auto simp: scrub_priority_store_def Let_def)

lemma scrubber_wf_updates:
  "scrubber_wf cap s \<Longrightarrow> n \<in> set strategies \<Longrightarrow> scrubber_wf cap (s\<lparr>ds_strategy := n\<rparr>)"
  "scrubber_wf cap s \<Longrightarrow> m \<in> set priorities \<Longrightarrow> scrubber_wf cap (s\<lparr>ds_priority := m\<rparr>)"
  "scrubber_wf cap s \<Longrightarrow> ds_strategy s \<in> set strategies \<and> ds_priority s \<in> set priorities"
  by (simp_all add: scrubber_wf_def)

lemma store_okI:
  assumes "\<And>cap s page count. scrubber_wf cap s \<Longrightarrow> is_cstring page \<Longrightarrow>
    \<exists>acts. st cap s page count = Some (f s page, acts, sint count)"
    and "\<And>cap s page. scrubber_wf cap s \<Longrightarrow> scrubber_wf cap (f s page)"
  shows "store_ok st"
  unfolding store_ok_def using assms by blast

lemma strategy_store_ok: "store_ok scrub_strategy_store"
  by (rule store_okI [OF strategy_store_sets]) (simp_all add: scrubber_wf_updates)

lemma priority_store_ok: "store_ok scrub_priority_store"
  by (rule store_okI [OF priority_store_sets]) (simp_all add: scrubber_wf_updates)

lemma s32_of_less: "s32_of w < 2 ^ 31"
  using sint_less [of "ucast w :: u32"] by (simp add: s32_of_def)

lemma number_stores_ok:
  "store_ok scrub_reqbound_store" "store_ok scrub_segsize_store" "store_ok scrub_regsize_store"
  "store_ok scrub_spoint_store" "store_ok scrub_scount_store" "store_ok scrub_ttime_ms_store"
  "store_ok scrub_reqcount_store" "store_ok scrub_delayms_store" "store_ok scrub_vrprotect_store"
  "store_ok scrub_verbose_store"
  by (auto simp: store_ok_def scrubber_wf_def Let_def scrub_reqbound_store_def scrub_segsize_store_def
      scrub_regsize_store_def scrub_spoint_store_def scrub_scount_store_def scrub_ttime_ms_store_def
      scrub_reqcount_store_def scrub_delayms_store_def scrub_vrprotect_store_def scrub_verbose_store_def)

lemma threads_store_ok: "store_ok scrub_threads_store"
  using s32_of_less by (auto simp: store_ok_def scrubber_wf_def Let_def scrub_threads_store_def)

lemma switch_stores_ok: "store_ok scrub_state_store" "store_ok scrub_dpo_store" "store_ok scrub_timed_store"
  by (auto simp: store_ok_def scrubber_wf_def Let_def scrub_state_store_def scrub_dpo_store_def
      scrub_timed_store_def)

lemmas stores_ok = strategy_store_ok priority_store_ok number_stores_ok threads_store_ok switch_stores_ok

lemma default_attrs_stores: "e \<in> set default_attrs \<Longrightarrow> en_store e = Some st \<Longrightarrow> store_ok st"
  by (auto simp: default_attrs_def rw_entry_def stores_ok)

text \<open>A show operation fills less than a page and returns the length of its text.\<close>

definition show_ok :: "show_op \<Rightarrow> bool" where
  "show_ok sh \<longleftrightarrow> (\<forall>cap s. scrubber_wf cap s \<longrightarrow>
     (\<exists>t. sh s = Some (t, int (length t)) \<and> is_cstring t \<and> length t < 4096))"

lemma digit_not_NUL: "d < 10 \<Longrightarrow> digit d \<noteq> NUL"
proof
  assume d: "d < 10" and "digit d = NUL"
  then have "(of_char (digit d) :: nat) = 0" by simp
  then show False unfolding of_char_digit [OF d] by simp
qed

lemma is_cstring_dec: "is_cstring (dec n)"
proof (induction n rule: less_induct)
  case (less n)
  then show ?case
    using less.IH [of "n div 10"] digit_not_NUL [of "n mod 10"] digit_not_NUL [of n]
    by (cases "n < 10") (auto simp: is_cstring_def dec_less_10 dec_ge_10)
qed

lemma line_ok:
  assumes "is_cstring (label @ value @ rest)" "length (label @ value @ rest) < 4095"
  shows "\<exists>t. line label value rest = Some (t, int (length t)) \<and> is_cstring t \<and> length t < 4096"
  using assms by (auto simp: line_def is_cstring_def)

lemma is_cstring_simps [simp]:
  "is_cstring []" "is_cstring (c # t) \<longleftrightarrow> c \<noteq> NUL \<and> is_cstring t"
  "is_cstring (t @ u) \<longleftrightarrow> is_cstring t \<and> is_cstring u"
  by (auto simp: is_cstring_def)

lemma is_cstring_dec_int: "is_cstring (dec_int k)"
  by (simp add: dec_int_def is_cstring_dec)

lemma show_okI:
  assumes "\<And>cap s. scrubber_wf cap s \<Longrightarrow> sh s = line (label s) (value s) rest"
    and "\<And>s. is_cstring (label s) \<and> is_cstring (value s)" "is_cstring rest"
    and "\<And>s. length (label s) \<le> 1000 \<and> length (value s) \<le> 1000" "length rest \<le> 1000"
  shows "show_ok sh"
  unfolding show_ok_def
proof (intro allI impI)
  fix cap s
  assume "scrubber_wf cap s"
  then have "sh s = line (label s) (value s) rest" by (rule assms(1))
  moreover have "is_cstring (label s @ value s @ rest)" using assms(2) [of s] assms(3) by simp
  moreover have "length (label s @ value s @ rest) < 4095" using assms(4) [of s] assms(5) by simp
  ultimately show "\<exists>t. sh s = Some (t, int (length t)) \<and> is_cstring t \<and> length t < 4096"
    using line_ok by simp
qed

lemma length_dec_1000: "length (dec (unat (n :: u64))) \<le> 1000"
  using length_dec_u64 [of n] by simp

lemma length_dec_int_1000: "length (dec_int (sint (n :: u32))) \<le> 1000"
  using length_dec_int [of n] by simp

lemma number_shows_ok:
  "show_ok scrub_reqbound_show" "show_ok scrub_segsize_show" "show_ok scrub_regsize_show"
  "show_ok scrub_spoint_show" "show_ok scrub_scount_show" "show_ok scrub_ttime_ms_show"
  "show_ok scrub_resptime_us_show" "show_ok scrub_reqcount_show" "show_ok scrub_delayms_show"
  by (rule show_okI, rule number_show_text; simp add: is_cstring_dec length_dec_1000)+

lemma int_shows_ok:
  "show_ok scrub_threads_show" "show_ok scrub_vrprotect_show" "show_ok scrub_verbose_show"
  by (rule show_okI, rule int_show_text; simp add: is_cstring_dec_int length_dec_int_1000)+

lemma switch_shows_ok: "show_ok scrub_dpo_show" "show_ok scrub_timed_show"
  by (rule show_okI, rule switch_show_text; simp)+

lemma state_show_ok: "show_ok scrub_state_show"
  by (rule show_okI, rule state_show_text) (simp_all add: scrubber_wf_def)

lemma marked_list_ok:
  "is_cstring (concat (map (marked cur) strategies))" "length (concat (map (marked cur) strategies)) \<le> 1000"
  "is_cstring (concat (map (marked cur) priorities))" "length (concat (map (marked cur) priorities)) \<le> 1000"
  by (simp_all add: strategies_def priorities_def marked_def)

lemma name_shows_ok: "show_ok scrub_strategy_show" "show_ok scrub_priority_show"
proof -
  show "show_ok scrub_strategy_show"
    by (rule show_okI, rule names_show_strategies) (auto simp: marked_list_ok dest: wf_names)
  show "show_ok scrub_priority_show"
    by (rule show_okI, rule names_show_priorities) (auto simp: marked_list_ok dest: wf_names)
qed

lemmas shows_ok = number_shows_ok int_shows_ok switch_shows_ok state_show_ok name_shows_ok

lemma default_attrs_shows: "e \<in> set default_attrs \<Longrightarrow> en_show e = Some sh \<Longrightarrow> show_ok sh"
  by (auto simp: default_attrs_def rw_entry_def shows_ok)

section \<open>The directory of the scrubber\<close>

text \<open>A sequence of writes to attributes, each with its text.\<close>

fun store_all :: "u64 \<Rightarrow> (scrub_sysfs_entry \<times> string) list \<Rightarrow> disk_scrubber \<Rightarrow> disk_scrubber option" where
  "store_all cap [] s = Some s"
| "store_all cap ((e, page) # ws) s =
     (case scrub_attr_store e cap s page (of_nat (length page)) of
        Some (s', acts, r) \<Rightarrow> store_all cap ws s'
      | None \<Rightarrow> None)"

text \<open>
  What a user of the directory relies on, for a table of attributes and the ranges that it keeps.
\<close>

locale attribute_directory =
  fixes attrs :: "scrub_sysfs_entry list" and wf :: "u64 \<Rightarrow> disk_scrubber \<Rightarrow> bool"
  assumes store_keeps: "\<And>e cap s page count. e \<in> set attrs \<Longrightarrow> wf cap s \<Longrightarrow> is_cstring page \<Longrightarrow>
      \<exists>s' acts r. scrub_attr_store e cap s page count = Some (s', acts, r) \<and> wf cap s' \<and> r \<in> {sint count, - EIO}"
    and show_fits: "\<And>e cap s. e \<in> set attrs \<Longrightarrow> wf cap s \<Longrightarrow>
      \<exists>t. scrub_attr_show e s = Some (t, int (length t)) \<and> is_cstring t \<and> length t < 4096"
begin

lemma writes_keep:
  assumes "wf cap s" "\<forall>(e, page) \<in> set ws. e \<in> set attrs \<and> is_cstring page"
  shows "\<exists>s'. store_all cap ws s = Some s' \<and> wf cap s'"
  using assms
proof (induction ws arbitrary: s)
  case (Cons w ws)
  obtain e page where w: "w = (e, page)" by fastforce
  have "e \<in> set attrs" "is_cstring page" using Cons.prems(2) w by auto
  then obtain s' acts r where "scrub_attr_store e cap s page (of_nat (length page)) = Some (s', acts, r)"
      "wf cap s'"
    using store_keeps [OF _ Cons.prems(1)] by metis
  then show ?case using Cons w by simp
qed simp

end

interpretation dir: attribute_directory default_attrs scrubber_wf
proof
  fix e cap s page count
  assume e: "e \<in> set default_attrs" and s: "scrubber_wf cap s" and page: "is_cstring page"
  show "\<exists>s' acts r. scrub_attr_store e cap s page count = Some (s', acts, r) \<and> scrubber_wf cap s' \<and>
      r \<in> {sint count, - EIO}"
  proof (cases "en_store e")
    case (Some st)
    then show ?thesis
      using default_attrs_stores [OF e Some] s page by (fastforce simp: scrub_attr_store_def store_ok_def)
  qed (use s in \<open>simp add: scrub_attr_store_def\<close>)
next
  fix e cap s
  assume e: "e \<in> set default_attrs" and s: "scrubber_wf cap s"
  obtain sh where "en_show e = Some sh" using e by (auto simp: default_attrs_def rw_entry_def)
  then show "\<exists>t. scrub_attr_show e s = Some (t, int (length t)) \<and> is_cstring t \<and> length t < 4096"
    using default_attrs_shows [OF e] s by (fastforce simp: scrub_attr_show_def show_ok_def)
qed

lemma strcmp_names [simp]:
  "is_cstring p \<Longrightarrow> strcmp p ''on'' = 0 \<longleftrightarrow> p = ''on''"
  "is_cstring p \<Longrightarrow> strcmp p ''off'' = 0 \<longleftrightarrow> p = ''off''"
  "is_cstring p \<Longrightarrow> strcmp p ''abort'' = 0 \<longleftrightarrow> p = ''abort''"
  by (simp_all add: strcmp_0 is_cstring_def)

text \<open>
  C30: Whatever texts are written to whatever attributes of a new scrubber, in any order, no name
  buffer overflows, and the parameters stay in the ranges the scrubber relies on: a known strategy
  and priority, a known state, at least one thread, switches of 0 or 1, and sizes other than 0 on
  a disk that is not empty.
\<close>

theorem sysfs_writes_keep_ranges:
  assumes "\<forall>(e, page) \<in> set ws. e \<in> set default_attrs \<and> is_cstring page"
  shows "\<exists>s. store_all capacity ws (default_scrubber name) = Some s \<and> scrubber_wf capacity s"
  using dir.writes_keep [OF default_scrubber_wf assms] .

theorem sysfs_writes_keep_ranges_witness:
  "\<exists>s. store_all 100 [(rw_entry ''threads'' scrub_threads_show scrub_threads_store, ''-3'')]
       (default_scrubber ''sda'') = Some s \<and> scrubber_wf 100 s"
  by (rule sysfs_writes_keep_ranges) (simp add: default_attrs_def is_cstring_def)

text \<open>
  Reading any attribute, once its parameters are in range, fills less than one page and
  returns the length of the text that it left there.
\<close>

theorem attributes_fit_a_page:
  assumes "e \<in> set default_attrs" "scrubber_wf capacity s"
  shows "\<exists>t. scrub_attr_show e s = Some (t, int (length t)) \<and> NUL \<notin> set t \<and> length t < 4096"
  using dir.show_fits [OF assms] by (simp add: is_cstring_def)

theorem attributes_fit_a_page_witness:
  "\<exists>t. scrub_attr_show (rw_entry ''dpo'' scrub_dpo_show scrub_dpo_store) (default_scrubber ''sda'')
     = Some (t, int (length t)) \<and> NUL \<notin> set t \<and> length t < 4096"
  by (rule attributes_fit_a_page [where capacity = 100]) (simp_all add: default_attrs_def default_scrubber_wf)

section \<open>The state attribute as a machine\<close>

text \<open>
  The contract of the state attribute: a scrubber is in one of three modes, writing the name of a
  mode moves it there, any other text leaves it, and the task is woken up when the scrubber is
  switched on.
\<close>

datatype mode = On | Off | Abort

primrec mode_name :: "mode \<Rightarrow> string" where
  "mode_name On = ''on''"
| "mode_name Off = ''off''"
| "mode_name Abort = ''abort''"

definition mode_of :: "disk_scrubber \<Rightarrow> mode" where
  "mode_of s = (if ds_state s = 0 then On else if ds_state s = 2 then Abort else Off)"

definition mode_step :: "string \<Rightarrow> mode \<Rightarrow> mode \<times> bool" where
  "mode_step text m =
     (if text = ''on'' then (On, m \<noteq> On)
      else if text = ''off'' then (Off, False)
      else if text = ''abort'' then (Abort, False)
      else (m, False))"

lemma state_store_refines:
  assumes "is_cstring page"
  shows "\<exists>s' acts. scrub_state_store cap s page count = Some (s', acts, sint count) \<and>
    (mode_of s', Wake_up_process \<in> set acts) = mode_step (chomp page) (mode_of s) \<and>
    s' = s\<lparr>ds_state := ds_state s'\<rparr>"
  using assms
  by (simp add: scrub_state_store_def Let_def mode_of_def mode_step_def complain_def
      is_cstring_chomp split: if_split)

text \<open>
  C26: The state attribute implements its contract: seen through the three modes, every write is the
  step of the abstract machine, it touches no other parameter, and it wakes the scrubber task
  exactly when it switches the scrubber on. This holds for every value the field may have had.
\<close>

theorem state_attribute_refines:
  assumes "NUL \<notin> set page"
  shows "\<exists>s' acts. scrub_state_store capacity s page count = Some (s', acts, sint count) \<and>
    (mode_of s', Wake_up_process \<in> set acts) = mode_step (chomp page) (mode_of s) \<and>
    s' = s\<lparr>ds_state := ds_state s'\<rparr>"
  using state_store_refines assms by (simp add: is_cstring_def)

theorem state_attribute_refines_witness:
  "\<exists>s' acts. scrub_state_store 7 (default_scrubber ''sda'') (''on'' @ [NL]) 3 = Some (s', acts, sint (3 :: u64)) \<and>
    (mode_of s', Wake_up_process \<in> set acts) = mode_step (chomp (''on'' @ [NL])) (mode_of (default_scrubber ''sda'')) \<and>
    s' = (default_scrubber ''sda'')\<lparr>ds_state := ds_state s'\<rparr>"
  by (rule state_attribute_refines) simp

section \<open>Reading back what was written\<close>

lemma dec_head: "dec n \<noteq> [] \<and> isdigit (hd (dec n))"
proof (induction n rule: less_induct)
  case (less n)
  then show ?case by (cases "n < 10") (auto simp: dec_less_10 dec_ge_10)
qed

lemma not_minus: "isdigit c \<Longrightarrow> c \<noteq> CHR ''-''"
  by (auto simp: isdigit_def)

lemma strtol_dec: "fst (simple_strtol (dec n @ [NL]) 10) = of_nat n"
proof -
  have "char_at (dec n @ [NL]) 0 \<noteq> CHR ''-''"
    using dec_head [of n] not_minus by (cases "dec n") auto
  then show ?thesis
    using strtoull_reads_dec [of "[NL]" n] by (simp add: simple_strtol_def simple_strtoul_def)
qed

lemma s32_of_nat: "n < 2 ^ 31 \<Longrightarrow> s32_of (of_nat n) = int n"
  by (simp add: s32_of_def unsigned_of_nat take_bit_nat_eq_self signed_of_nat signed_take_bit_int_eq_self)

lemma threads_store_number:
  assumes "1 \<le> n" "n < 2 ^ 31"
  shows "scrub_threads_store cap s (dec n @ [NL]) count = Some (s\<lparr>ds_threads := int n\<rparr>, [], sint count)"
  using assms by (simp add: scrub_threads_store_def strtol_dec s32_of_nat)

lemma strtoull_dec_line: "fst (simple_strtoull (dec n @ [NL]) 10) = of_nat n"
  using strtoull_reads_dec [of "[NL]" n] by simp

text \<open>
  The check of \<open>segsize\<close> against the capacity of the disk looks at the old value. While that
  value is within the capacity, any number other than 0 is taken, also one above the capacity;
  once it is above, the next write sets the capacity, whatever number is written.
\<close>

theorem segsize_check_is_late:
  assumes "n \<noteq> 0" "n < 2 ^ 64"
  shows "scrub_segsize_store capacity s (dec n @ [NL]) count =
    Some (s\<lparr>ds_segsize := (if ds_segsize s \<le> capacity then of_nat n else capacity)\<rparr>, [], sint count)"
proof -
  have "of_nat n \<noteq> (0 :: u64)" using assms unat_of_nat_u64 [of n] by (auto simp: word_unat_eq_iff)
  then show ?thesis by (auto simp: scrub_segsize_store_def strtoull_dec_line not_le)
qed

theorem segsize_check_is_late_witness:
  "scrub_segsize_store 5000 (default_scrubber ''sda'') (dec 9000 @ [NL]) 5 =
    Some ((default_scrubber ''sda'')\<lparr>ds_segsize := (if ds_segsize (default_scrubber ''sda'') \<le> 5000
      then of_nat 9000 else 5000)\<rparr>, [], sint (5 :: u64))
   \<and> ds_segsize (default_scrubber ''sda'') \<le> 5000"
  using segsize_check_is_late [of 9000 5000 "default_scrubber ''sda''" 5]
  by (simp add: default_scrubber_def)



end
