(* ===== verification/Sysfs_File.thy ===== *)
theory Sysfs_File
  imports Scrub_Sysfs
begin

text \<open>
  How user space reaches the attributes: the file operations of sysfs (\<^verbatim>\<open>fs/sysfs/file.c\<close>) and
  \<open>simple_read_from_buffer\<close> (\<^verbatim>\<open>fs/libfs.c\<close>). An open file has a buffer with a page; a read
  at the start of the file fills the page with the show operation, a write copies at most one byte
  less than a page, ends it with a NUL and calls the store operation.

  The show and store operations of the kobject are arguments, and so is what the file system and
  the memory management around these functions answer: whether the attribute still exists
  (\<open>sysfs_get_active\<close>), whether a page could be allocated, and how many bytes could not be copied
  from or to user space (what \<open>copy_from_user\<close> does not copy, it clears). \<open>None\<close> is a fault of the show or store operation.
\<close>

abbreviation (input) PAGE_SIZE :: nat where "PAGE_SIZE \<equiv> 4096"
abbreviation (input) ENODEV :: int where "ENODEV \<equiv> 19"
abbreviation (input) EACCES :: int where "EACCES \<equiv> 13"

section \<open>The buffer of an open file\<close>

record sysfs_buffer =
  sb_count :: nat
  sb_page :: "char list option"
  sb_needs_read_fill :: bool

record file_env =
  fe_active :: bool
  fe_page :: bool
  fe_uncopied :: nat

definition zeroed_page :: "char list" where
  "zeroed_page = replicate PAGE_SIZE NUL"

definition get_page :: "file_env \<Rightarrow> sysfs_buffer \<Rightarrow> char list option" where
  "get_page env buffer =
     (case sb_page buffer of Some page \<Rightarrow> Some page
      | None \<Rightarrow> if fe_page env then Some zeroed_page else None)"

text \<open>The C string at the start of a page.\<close>

definition cstring_of :: "char list \<Rightarrow> string" where
  "cstring_of page = takeWhile (\<lambda>c. c \<noteq> NUL) page"

text \<open>A show operation leaves its text and the terminator at the start of the page.\<close>

definition put_text :: "string \<Rightarrow> char list \<Rightarrow> char list" where
  "put_text t page = (if t = [] then page else t @ [NUL] @ drop (length t + 1) page)"

section \<open>Opening\<close>

text \<open>
  The result of \<open>sysfs_open_file\<close>: the new buffer or the error. \<open>mode\<close> is the mode of the inode;
  the operations of a kobject have both a show and a store function, whatever the attribute has.
\<close>

definition sysfs_open_file :: "bool \<Rightarrow> bool \<Rightarrow> bool \<Rightarrow> bool \<Rightarrow> u16 \<Rightarrow> int + sysfs_buffer" where
  "sysfs_open_file active alloc fmode_read fmode_write mode =
     (if \<not> active then Inl (- ENODEV)
      else if fmode_write \<and> mode AND 0x92 = 0 then Inl (- EACCES)
      else if fmode_read \<and> mode AND S_IRUGO = 0 then Inl (- EACCES)
      else if \<not> alloc then Inl (- ENOMEM)
      else Inr \<lparr>sb_count = 0, sb_page = None, sb_needs_read_fill = True\<rparr>)"

section \<open>Reading\<close>

definition fill_read_buffer ::
    "file_env \<Rightarrow> ('k \<Rightarrow> (string \<times> int) option) \<Rightarrow> 'k \<Rightarrow> sysfs_buffer \<Rightarrow> (int \<times> sysfs_buffer) option" where
  "fill_read_buffer env sh k buffer =
     (case get_page env buffer of
        None \<Rightarrow> Some (- ENOMEM, buffer)
      | Some page \<Rightarrow>
          if \<not> fe_active env then Some (- ENODEV, buffer\<lparr>sb_page := Some page\<rparr>)
          else (case sh k of
                  None \<Rightarrow> None
                | Some (t, ret) \<Rightarrow>
                    let count = (if ret \<ge> int PAGE_SIZE then int PAGE_SIZE - 1 else ret);
                        buffer = buffer\<lparr>sb_page := Some (put_text t page)\<rparr>
                    in if count \<ge> 0
                       then Some (0, buffer\<lparr>sb_needs_read_fill := False, sb_count := nat count\<rparr>)
                       else Some (count, buffer)))"

text \<open>The return value, the bytes copied to user space, and the new position.\<close>

definition simple_read_from_buffer ::
    "file_env \<Rightarrow> nat \<Rightarrow> int \<Rightarrow> char list \<Rightarrow> nat \<Rightarrow> int \<times> char list \<times> int" where
  "simple_read_from_buffer env count0 pos from available =
     (if pos < 0 then (- EINVAL, [], pos)
      else if pos \<ge> int available \<or> count0 = 0 then (0, [], pos)
      else let count = min count0 (available - nat pos);
               ret = min (fe_uncopied env) count
           in if ret = count then (- EFAULT, [], pos)
              else (int (count - ret), take (count - ret) (drop (nat pos) from), pos + int (count - ret)))"

definition sysfs_read_file ::
    "file_env \<Rightarrow> ('k \<Rightarrow> (string \<times> int) option) \<Rightarrow> 'k \<Rightarrow> nat \<Rightarrow> int \<times> sysfs_buffer \<Rightarrow>
       (int \<times> char list \<times> int \<times> sysfs_buffer) option" where
  "sysfs_read_file env sh k count = (\<lambda>(pos, buffer0). do {
     (retval, buffer) \<leftarrow> (if sb_needs_read_fill buffer0 \<or> pos = 0 then fill_read_buffer env sh k buffer0
                          else Some (0, buffer0));
     if retval \<noteq> 0 then Some (retval, [], pos, buffer)
     else do {
       page \<leftarrow> sb_page buffer;
       let (ret, bytes, pos') = simple_read_from_buffer env count pos page (sb_count buffer);
       Some (ret, bytes, pos', buffer) } })"

section \<open>Writing\<close>

definition fill_write_buffer :: "file_env \<Rightarrow> sysfs_buffer \<Rightarrow> char list \<Rightarrow> int \<times> sysfs_buffer" where
  "fill_write_buffer env buffer buf =
     (case get_page env buffer of
        None \<Rightarrow> (- ENOMEM, buffer)
      | Some page \<Rightarrow>
          let count = (if length buf \<ge> PAGE_SIZE then PAGE_SIZE - 1 else length buf);
              copied = count - fe_uncopied env;
              page1 = take copied buf @ replicate (count - copied) NUL @ drop count page
          in (if 0 < fe_uncopied env \<and> 0 < count then - EFAULT else int count,
              buffer\<lparr>sb_page := Some (page1[count := NUL]), sb_needs_read_fill := True\<rparr>))"

definition flush_write_buffer ::
    "file_env \<Rightarrow> ('k \<Rightarrow> string \<Rightarrow> u64 \<Rightarrow> ('k \<times> int) option) \<Rightarrow> 'k \<Rightarrow> sysfs_buffer \<Rightarrow> int \<Rightarrow> (int \<times> 'k) option" where
  "flush_write_buffer env st k buffer count =
     (if \<not> fe_active env then Some (- ENODEV, k)
      else do {
        page \<leftarrow> sb_page buffer;
        (k', rc) \<leftarrow> st k (cstring_of page) (of_int count);
        Some (rc, k') })"

definition sysfs_write_file ::
    "file_env \<Rightarrow> ('k \<Rightarrow> string \<Rightarrow> u64 \<Rightarrow> ('k \<times> int) option) \<Rightarrow> 'k \<Rightarrow> char list \<Rightarrow> int \<times> sysfs_buffer \<Rightarrow>
       (int \<times> 'k \<times> int \<times> sysfs_buffer) option" where
  "sysfs_write_file env st k buf = (\<lambda>(pos, buffer0).
     let (len, buffer) = fill_write_buffer env buffer0 buf
     in if len > 0 then do {
          (len', k') \<leftarrow> flush_write_buffer env st k buffer len;
          Some (len', k', (if len' > 0 then pos + len' else pos), buffer) }
        else Some (len, k, pos, buffer))"

section \<open>What a user of the files relies on\<close>

text \<open>Reading a file to its end, \<open>n\<close> bytes at a time.\<close>

partial_function (option) read_to_end ::
    "file_env \<Rightarrow> ('k \<Rightarrow> (string \<times> int) option) \<Rightarrow> 'k \<Rightarrow> nat \<Rightarrow> int \<times> sysfs_buffer \<Rightarrow> char list option" where
  "read_to_end env sh k n f =
     Option.bind (sysfs_read_file env sh k n f) (\<lambda>(ret, bytes, f').
       if ret \<le> 0 then Some []
       else Option.bind (read_to_end env sh k n f') (\<lambda>rest. Some (bytes @ rest)))"

definition no_faults :: "file_env \<Rightarrow> bool" where
  "no_faults env \<longleftrightarrow> fe_active env \<and> fe_page env \<and> fe_uncopied env = 0"

definition fresh_buffer :: sysfs_buffer where
  "fresh_buffer = \<lparr>sb_count = 0, sb_page = None, sb_needs_read_fill = True\<rparr>"

text \<open>The page of an open file has the size of a page.\<close>

definition buffer_ok :: "sysfs_buffer \<Rightarrow> bool" where
  "buffer_ok buffer \<longleftrightarrow> (\<forall>page. sb_page buffer = Some page \<longrightarrow> length page = PAGE_SIZE)"

lemma get_page_length: "buffer_ok buffer \<Longrightarrow> get_page env buffer = Some page \<Longrightarrow> length page = PAGE_SIZE"
  by (auto simp: get_page_def buffer_ok_def zeroed_page_def split: option.splits if_splits)

definition shows_text :: "string \<Rightarrow> sysfs_buffer \<Rightarrow> bool" where
  "shows_text t buffer \<longleftrightarrow> \<not> sb_needs_read_fill buffer \<and> sb_count buffer = length t \<and>
     (\<exists>rest. sb_page buffer = Some (t @ rest))"

lemma put_text_prefix: "\<exists>rest. put_text t page = t @ rest"
  by (simp add: put_text_def)

lemma fill_read_shows:
  assumes "no_faults env" "sh k = Some (t, int (length t))" "length t < PAGE_SIZE"
  shows "\<exists>buffer'. fill_read_buffer env sh k buffer = Some (0, buffer') \<and> shows_text t buffer'"
  using assms put_text_prefix [of t]
  by (auto simp: fill_read_buffer_def no_faults_def get_page_def shows_text_def Let_def split: option.splits)

lemma read_filled:
  assumes "no_faults env" "0 < pos \<longrightarrow> shows_text t buffer" "0 < n" "sh k = Some (t, int (length t))"
    and "pos \<le> length t" "length t < PAGE_SIZE"
  shows "\<exists>buffer'. shows_text t buffer' \<and> sysfs_read_file env sh k n (int pos, buffer) =
    Some (int (min n (length t - pos)), take n (drop pos t), int pos + int (min n (length t - pos)), buffer')"
proof -
  obtain buffer' where fill: "(if sb_needs_read_fill buffer \<or> int pos = 0 then fill_read_buffer env sh k buffer
      else Some (0, buffer)) = Some (0, buffer')" and shows': "shows_text t buffer'"
  proof (cases "pos = 0")
    case True
    then show ?thesis using that fill_read_shows [where sh = sh and k = k, OF assms(1,4,6), of buffer] by auto
  next
    case False
    then show ?thesis using that assms(2) by (auto simp: shows_text_def)
  qed
  show ?thesis
  proof (intro exI conjI)
    show "shows_text t buffer'" by (rule shows')
    show "sysfs_read_file env sh k n (int pos, buffer) =
        Some (int (min n (length t - pos)), take n (drop pos t), int pos + int (min n (length t - pos)), buffer')"
      unfolding sysfs_read_file_def prod.case fill
      using shows' assms(1,3,5)
      by (auto simp: shows_text_def simple_read_from_buffer_def no_faults_def Let_def min_def take_all)
  qed
qed

lemma read_filled_to_end:
  assumes "no_faults env" "0 < n" "length t < PAGE_SIZE" "sh k = Some (t, int (length t))"
  shows "(0 < pos \<longrightarrow> shows_text t buffer) \<Longrightarrow> pos \<le> length t \<Longrightarrow>
    read_to_end env sh k n (int pos, buffer) = Some (drop pos t)"
proof (induction "length t - pos" arbitrary: pos buffer rule: less_induct)
  case less
  let ?m = "min n (length t - pos)"
  obtain buffer' where buffer': "shows_text t buffer'"
    and read: "sysfs_read_file env sh k n (int pos, buffer) =
      Some (int ?m, take n (drop pos t), int pos + int ?m, buffer')"
    using read_filled [where sh = sh and k = k, OF assms(1) less.prems(1) assms(2,4) less.prems(2) assms(3)]
    by blast
  show ?case
  proof (cases "pos = length t")
    case True
    then show ?thesis using read by (simp add: read_to_end.simps)
  next
    case False
    then have "length t - (pos + ?m) < length t - pos" "pos + ?m \<le> length t" using less.prems assms(2) by auto
    from less.hyps [OF this(1) _ this(2), of buffer'] buffer'
    have "read_to_end env sh k n (int (pos + ?m), buffer') = Some (drop (pos + ?m) t)" by blast
    moreover have "take n (drop pos t) @ drop (pos + ?m) t = drop pos t"
    proof (cases "n \<le> length t - pos")
      case True
      then show ?thesis by (metis add.commute append_take_drop_id drop_drop min.absorb1)
    qed (use less.prems in simp)
    ultimately show ?thesis using read False less.prems assms(2) by (simp add: read_to_end.simps [of env])
  qed
qed

lemma read_to_end_shows:
  assumes "no_faults env" "0 < n" "length t < PAGE_SIZE" "sh k = Some (t, int (length t))"
  shows "read_to_end env sh k n (0, buffer) = Some t"
  using read_filled_to_end [where sh = sh and k = k and pos = 0, OF assms, of buffer] by simp

lemma takeWhile_prefix: "takeWhile P (take m xs @ y # ys) = takeWhile P (take m xs)" if "\<not> P y"
  using that by (simp add: takeWhile_tail)

lemma write_reaches:
  assumes "no_faults env" "buffer_ok buffer" "buf \<noteq> []"
  shows "\<exists>buffer'. buffer_ok buffer' \<and> sysfs_write_file env st k buf (pos, buffer) =
    map_option (\<lambda>(k', rc). (rc, k', (if rc > 0 then pos + rc else pos), buffer'))
      (st k (cstring_of (take (PAGE_SIZE - 1) buf)) (of_nat (min (length buf) (PAGE_SIZE - 1))))"
proof -
  obtain page where page: "get_page env buffer = Some page" "length page = PAGE_SIZE"
  proof -
    have "\<exists>page. get_page env buffer = Some page"
      using assms(1) by (cases "sb_page buffer") (simp_all add: get_page_def no_faults_def)
    then show thesis using that get_page_length [OF assms(2)] by blast
  qed
  define count where "count = min (length buf) (PAGE_SIZE - 1)"
  define page' where "page' = (take count buf @ drop count page)[count := NUL]"
  define buffer' where "buffer' = buffer\<lparr>sb_page := Some page', sb_needs_read_fill := True\<rparr>"
  have count: "count < PAGE_SIZE" "0 < count" "count \<le> length buf" using assms(3) by (auto simp: count_def)
  have fill: "fill_write_buffer env buffer buf = (int count, buffer')"
    using assms(1) page(1)
    by (auto simp: fill_write_buffer_def no_faults_def Let_def count_def page'_def buffer'_def min_def)
  have "page' = take count buf @ NUL # drop (Suc count) page"
    using count page(2) by (simp add: page'_def list_update_append upd_conv_take_nth_drop Cons_nth_drop_Suc [symmetric])
  then have str: "cstring_of page' = cstring_of (take (PAGE_SIZE - 1) buf)"
    by (simp add: cstring_of_def takeWhile_prefix count_def min_def)
  have "buffer_ok buffer'" using count page(2) by (simp add: buffer_ok_def buffer'_def page'_def)
  moreover have "sysfs_write_file env st k buf (pos, buffer) =
      map_option (\<lambda>(k', rc). (rc, k', (if rc > 0 then pos + rc else pos), buffer'))
        (st k (cstring_of (take (PAGE_SIZE - 1) buf)) (of_nat (min (length buf) (PAGE_SIZE - 1))))"
    unfolding sysfs_write_file_def prod.case fill
    using count(2) assms(1) str
    by (cases "st k (cstring_of (take (PAGE_SIZE - 1) buf)) (of_nat count)")
      (auto simp: flush_write_buffer_def no_faults_def buffer'_def count_def)
  ultimately show ?thesis by blast
qed

locale attribute_files =
  fixes entries :: "'e set" and sh :: "'e \<Rightarrow> 'k \<Rightarrow> (string \<times> int) option"
    and st :: "'e \<Rightarrow> 'k \<Rightarrow> string \<Rightarrow> u64 \<Rightarrow> ('k \<times> int) option" and wf :: "'k \<Rightarrow> bool"
  assumes shows_fit: "\<And>e k. e \<in> entries \<Longrightarrow> wf k \<Longrightarrow>
      \<exists>t. sh e k = Some (t, int (length t)) \<and> length t < 4096"
    and stores_keep: "\<And>e k page n. e \<in> entries \<Longrightarrow> wf k \<Longrightarrow> is_cstring page \<Longrightarrow>
      \<exists>k' rc. st e k page n = Some (k', rc) \<and> wf k'"
begin

lemma read_whole:
  assumes "e \<in> entries" "wf k" "no_faults env" "0 < n"
  shows "\<exists>t. read_to_end env (sh e) k n (0, buffer) = Some t \<and> sh e k = Some (t, int (length t))"
proof -
  obtain t where t: "sh e k = Some (t, int (length t))" "length t < 4096"
    using shows_fit [OF assms(1,2)] by blast
  show ?thesis
    using read_to_end_shows [where sh = "sh e" and k = k, OF assms(3,4) t(2,1)] t(1) by blast
qed

lemma write_keeps:
  assumes "e \<in> entries" "wf k" "no_faults env" "buffer_ok buffer"
  shows "\<exists>rc k' pos' buffer'. sysfs_write_file env (st e) k buf (pos, buffer) = Some (rc, k', pos', buffer') \<and>
    wf k' \<and> buffer_ok buffer'"
proof (cases "buf = []")
  case True
  obtain page where page: "get_page env buffer = Some page" and len: "length page = PAGE_SIZE"
    using assms(3) get_page_length [OF assms(4)]
    by (cases "sb_page buffer") (auto simp: get_page_def no_faults_def)
  then show ?thesis
    using True assms(2,3) len
    by (simp add: sysfs_write_file_def fill_write_buffer_def Let_def no_faults_def buffer_ok_def)
next
  case False
  have str: "is_cstring (cstring_of xs)" for xs
    by (auto simp: is_cstring_def cstring_of_def dest: set_takeWhileD)
  obtain k' rc where "st e k (cstring_of (take (PAGE_SIZE - 1) buf)) (of_nat (min (length buf) (PAGE_SIZE - 1)))
      = Some (k', rc)" "wf k'"
    using stores_keep [OF assms(1,2) str] by blast
  then show ?thesis
    using write_reaches [OF assms(3,4) False, of "st e" k pos] by auto
qed

end

section \<open>The files of the scrubber\<close>

text \<open>The kobject behind the files: the scrubber, the capacity of its disk, and what the kernel was asked to do.\<close>

record scrub_kobj =
  sk_scrubber :: disk_scrubber
  sk_capacity :: u64
  sk_log :: "kernel_action list"

definition kobj_show :: "scrub_sysfs_entry \<Rightarrow> scrub_kobj \<Rightarrow> (string \<times> int) option" where
  "kobj_show e k = scrub_attr_show e (sk_scrubber k)"

definition kobj_store :: "scrub_sysfs_entry \<Rightarrow> scrub_kobj \<Rightarrow> string \<Rightarrow> u64 \<Rightarrow> (scrub_kobj \<times> int) option" where
  "kobj_store e k page count =
     map_option (\<lambda>(s, acts, rc). (k\<lparr>sk_scrubber := s, sk_log := sk_log k @ acts\<rparr>, rc))
       (scrub_attr_store e (sk_capacity k) (sk_scrubber k) page count)"

definition kobj_wf :: "scrub_kobj \<Rightarrow> bool" where
  "kobj_wf k \<longleftrightarrow> scrubber_wf (sk_capacity k) (sk_scrubber k)"

interpretation files: attribute_files "set default_attrs" kobj_show kobj_store kobj_wf
proof
  fix e :: scrub_sysfs_entry and k :: scrub_kobj
  assume "e \<in> set default_attrs" "kobj_wf k"
  then show "\<exists>t. kobj_show e k = Some (t, int (length t)) \<and> length t < 4096"
    using dir.show_fits unfolding kobj_show_def kobj_wf_def by blast
next
  fix e :: scrub_sysfs_entry and k :: scrub_kobj and page n
  assume "e \<in> set default_attrs" "kobj_wf k" "is_cstring page"
  then obtain s' acts r where "scrub_attr_store e (sk_capacity k) (sk_scrubber k) page n = Some (s', acts, r)"
      "scrubber_wf (sk_capacity k) s'"
    using dir.store_keeps unfolding kobj_wf_def by metis
  then show "\<exists>k' rc. kobj_store e k page n = Some (k', rc) \<and> kobj_wf k'"
    by (simp add: kobj_store_def kobj_wf_def)
qed

text \<open>A session of a user: files of the directory are opened and written, in any order.\<close>

fun write_session :: "file_env \<Rightarrow> (scrub_sysfs_entry \<times> char list) list \<Rightarrow> scrub_kobj \<Rightarrow> scrub_kobj option" where
  "write_session env [] k = Some k"
| "write_session env ((e, buf) # ws) k =
     (case sysfs_write_file env (kobj_store e) k buf (0, fresh_buffer) of
        Some (rc, k', pos, buffer) \<Rightarrow> write_session env ws k'
      | None \<Rightarrow> None)"

lemma fresh_buffer_ok [simp]: "buffer_ok fresh_buffer"
  by (simp add: buffer_ok_def fresh_buffer_def)

lemma write_session_wf:
  assumes "no_faults env" "kobj_wf k" "\<forall>(e, buf) \<in> set ws. e \<in> set default_attrs"
  shows "\<exists>k'. write_session env ws k = Some k' \<and> kobj_wf k'"
  using assms(2,3)
proof (induction ws arbitrary: k)
  case (Cons w ws)
  obtain e buf where w: "w = (e, buf)" by fastforce
  then have e: "e \<in> set default_attrs" using Cons.prems(2) by simp
  obtain rc k' pos' buffer' where
      "sysfs_write_file env (kobj_store e) k buf (0, fresh_buffer) = Some (rc, k', pos', buffer')" "kobj_wf k'"
    using files.write_keeps [OF e Cons.prems(1) assms(1) fresh_buffer_ok, of buf 0] by blast
  then show ?case using Cons w by simp
qed simp

definition threads_entry :: scrub_sysfs_entry where
  "threads_entry = rw_entry ''threads'' scrub_threads_show scrub_threads_store"

lemma cstring_of_line: "is_cstring t \<Longrightarrow> length t < PAGE_SIZE \<Longrightarrow> cstring_of (take (PAGE_SIZE - 1) t) = t"
  by (auto simp: cstring_of_def is_cstring_def takeWhile_eq_all_conv)

lemma length_dec_less: "n < 2 ^ 31 \<Longrightarrow> length (dec n) \<le> 10"
  using length_dec_digits [of n 10] by (simp add: dec_def)

definition sample_kobj :: scrub_kobj where
  "sample_kobj = \<lparr>sk_scrubber = default_scrubber ''sda'', sk_capacity = 10000, sk_log = []\<rparr>"

definition good_file_env :: file_env where
  "good_file_env = \<lparr>fe_active = True, fe_page = True, fe_uncopied = 0\<rparr>"

lemma samples_ok [simp]: "kobj_wf sample_kobj" "no_faults good_file_env"
  by (simp_all add: sample_kobj_def kobj_wf_def default_scrubber_wf good_file_env_def no_faults_def)

text \<open>
  C25: Whatever bytes user space writes to the files of the directory, whatever files these are and in
  any order, NUL bytes and texts longer than a page included, every write returns, the scrubber
  stays in range, and afterwards reading any file to its end in pieces of any size gives exactly
  the text of its show operation.
\<close>

theorem user_sessions_are_safe:
  assumes "no_faults env" "kobj_wf k" "\<forall>(e, buf) \<in> set ws. e \<in> set default_attrs"
    and "e \<in> set default_attrs" "0 < n"
  shows "\<exists>k' t. write_session env ws k = Some k' \<and> kobj_wf k' \<and>
    read_to_end env (kobj_show e) k' n (0, fresh_buffer) = Some t \<and>
    scrub_attr_show e (sk_scrubber k') = Some (t, int (length t))"
proof -
  obtain k' where k': "write_session env ws k = Some k'" "kobj_wf k'"
    using write_session_wf [OF assms(1-3)] by blast
  then show ?thesis
    using files.read_whole [OF assms(4) k'(2) assms(1,5), of fresh_buffer] by (auto simp: kobj_show_def)
qed

theorem user_sessions_are_safe_witness:
  "\<exists>k' t. write_session good_file_env [(threads_entry, ''7'' @ [NUL, NL])] sample_kobj = Some k' \<and> kobj_wf k' \<and>
    read_to_end good_file_env (kobj_show threads_entry) k' 5 (0, fresh_buffer) = Some t \<and>
    scrub_attr_show threads_entry (sk_scrubber k') = Some (t, int (length t))"
  by (rule user_sessions_are_safe) (simp_all add: threads_entry_def default_attrs_def)

text \<open>
  C33: A number of threads written to the file is the number read back from it, through the file
  operations and in pieces of any size, for every positive \<open>int\<close>.
\<close>

theorem threads_file_roundtrip:
  assumes "no_faults env" "kobj_wf k" "1 \<le> num" "num < 2 ^ 31" "0 < n"
  shows "\<exists>rc k' pos buffer.
    sysfs_write_file env (kobj_store threads_entry) k (dec num @ [NL]) (0, fresh_buffer) = Some (rc, k', pos, buffer) \<and>
    rc = int (length (dec num @ [NL])) \<and>
    read_to_end env (kobj_show threads_entry) k' n (0, fresh_buffer) =
      Some (''Number of scrubbing threads: '' @ dec num @ [NL])"
proof -
  let ?t = "dec num @ [NL]" and ?k = "k\<lparr>sk_scrubber := (sk_scrubber k)\<lparr>ds_threads := int num\<rparr>\<rparr>"
  have len: "length ?t \<le> 11" using length_dec_less [OF assms(4)] by simp
  have "cstring_of (take (PAGE_SIZE - 1) ?t) = ?t" using len by (intro cstring_of_line) (simp_all add: is_cstring_dec)
  moreover have "kobj_store threads_entry k ?t c = Some (?k, sint c)" for c
    using threads_store_number [OF assms(3,4)] by (simp add: kobj_store_def threads_entry_def rw_entry_def scrub_attr_store_def)
  moreover have "sint (of_nat (min (length ?t) (PAGE_SIZE - 1)) :: u64) = int (length ?t)"
  proof -
    have "m \<le> 11 \<Longrightarrow> sint (of_nat (min m (PAGE_SIZE - 1)) :: u64) = int m" for m
      by (simp add: signed_of_nat signed_take_bit_int_eq_self min_def)
    then show ?thesis using len .
  qed
  ultimately obtain buffer where "sysfs_write_file env (kobj_store threads_entry) k ?t (0, fresh_buffer) =
      Some (int (length ?t), ?k, int (length ?t), buffer)"
    using write_reaches [OF assms(1) fresh_buffer_ok, of ?t "kobj_store threads_entry" k 0] by auto
  moreover have "read_to_end env (kobj_show threads_entry) ?k n (0, fresh_buffer) =
      Some (''Number of scrubbing threads: '' @ dec num @ [NL])"
  proof (rule read_to_end_shows [OF assms(1,5)])
    show "kobj_show threads_entry ?k = Some (''Number of scrubbing threads: '' @ dec num @ [NL],
        int (length (''Number of scrubbing threads: '' @ dec num @ [NL])))"
      using assms(3,4) sint_of_int_u32 [of "int num"]
      by (simp add: kobj_show_def threads_entry_def rw_entry_def scrub_attr_show_def int_show_text line_def dec_int_def)
  qed (use len in simp)
  ultimately show ?thesis by blast
qed

theorem threads_file_roundtrip_witness:
  "\<exists>rc k' pos buffer.
    sysfs_write_file good_file_env (kobj_store threads_entry) sample_kobj (dec 24 @ [NL]) (0, fresh_buffer)
      = Some (rc, k', pos, buffer) \<and>
    rc = int (length (dec 24 @ [NL])) \<and>
    read_to_end good_file_env (kobj_show threads_entry) k' 1 (0, fresh_buffer) =
      Some (''Number of scrubbing threads: '' @ dec 24 @ [NL])"
  by (rule threads_file_roundtrip) simp_all

end
