(* ===== verification/Scrub_Register.thy ===== *)
theory Scrub_Register
  imports Scrub_Sysfs Scrub_Core
begin

text \<open>
  The life of the scrubber of a disk: \<open>kscrubd_init\<close>, \<open>blk_init_scrub\<close>, \<open>blk_release_scrub\<close>,
  \<open>blk_register_scrub\<close> and \<open>blk_unregister_scrub\<close> of \<^verbatim>\<open>block/scrub.c\<close>, and what calls them in
  \<^verbatim>\<open>block/genhd.c\<close>: the end of \<open>add_disk\<close>, \<open>unlink_gendisk\<close>, \<open>get_disk\<close> and \<open>put_disk\<close>;
  and the reference counting of \<^verbatim>\<open>lib/kobject.c\<close> below them.

  The disk carries what these functions change: the pointers to the scrubber, the kobject of the
  scrubber, the reference counts of the disk and of its module, the scrubber task, and the events
  sent to user space. The kobject of the scrubber has no kset, and its parent, if any, is the
  disk. Allocation, \<open>try_module_get\<close>, the name and the directory of a kobject and the creation
  of the task can fail; how they do is an argument. \<open>None\<close> is a null or error pointer that is
  followed.
\<close>

section \<open>The disk\<close>

datatype uevent = KOBJ_ADD | KOBJ_REMOVE

record kobject =
  ko_kref :: int
  ko_initialized :: bool
  ko_in_sysfs :: bool
  ko_parent :: bool

text \<open>The kobject inside the structure that \<open>kmalloc_node\<close> returned, cleared.\<close>

definition zero_kobject :: kobject where
  "zero_kobject = \<lparr>ko_kref = 0, ko_initialized = False, ko_in_sysfs = False, ko_parent = False\<rparr>"

text \<open>What \<open>kthread_run\<close> returned: a task that runs, or an error pointer.\<close>

datatype task_ptr = Task_running | Task_error

record gendisk =
  gd_name :: string
  gd_major :: int
  gd_queue :: bool
  gd_fops :: bool
  gd_owner :: bool
  gd_scrubber :: "disk_scrubber option"
  gd_queue_scrubber :: bool
  gd_task :: "task_ptr option"
  gd_kobj :: kobject
  gd_freed :: bool
  gd_refs :: int
  gd_module_refs :: int
  gd_uevents :: "uevent list"
  gd_warnings :: nat

record reg_env =
  re_scrubber :: bool
  re_strategy :: bool
  re_priority :: bool
  re_kthread :: bool
  re_module :: bool
  re_set_name :: int
  re_create_dir :: int

section \<open>Reference counts\<close>

text \<open>\<open>kobject_get\<close> and \<open>kobject_put\<close> of the kobject of the disk, which may be a null pointer.\<close>

definition kobject_get :: "bool \<Rightarrow> gendisk \<Rightarrow> gendisk" where
  "kobject_get kobj d = (if kobj then d\<lparr>gd_refs := gd_refs d + 1\<rparr> else d)"

definition kobject_put :: "bool \<Rightarrow> gendisk \<Rightarrow> gendisk" where
  "kobject_put kobj d = (if kobj then d\<lparr>gd_refs := gd_refs d - 1\<rparr> else d)"

definition kobject_init :: "gendisk \<Rightarrow> gendisk" where
  "kobject_init d =
     d\<lparr>gd_kobj := (gd_kobj d)\<lparr>ko_kref := 1, ko_in_sysfs := False, ko_initialized := True\<rparr>\<rparr>"

definition kobject_add_internal :: "reg_env \<Rightarrow> gendisk \<Rightarrow> int \<times> gendisk" where
  "kobject_add_internal env d0 =
     (let parent = ko_parent (gd_kobj d0);
          d = kobject_get parent d0;
          error = re_create_dir env
      in if error \<noteq> 0
         then (error, (kobject_put parent d)\<lparr>gd_kobj := (gd_kobj d)\<lparr>ko_parent := False\<rparr>\<rparr>)
         else (error, d\<lparr>gd_kobj := (gd_kobj d)\<lparr>ko_in_sysfs := True\<rparr>\<rparr>))"

definition kobject_add_varg :: "reg_env \<Rightarrow> bool \<Rightarrow> gendisk \<Rightarrow> int \<times> gendisk" where
  "kobject_add_varg env parent d =
     (if re_set_name env \<noteq> 0 then (re_set_name env, d)
      else kobject_add_internal env (d\<lparr>gd_kobj := (gd_kobj d)\<lparr>ko_parent := parent\<rparr>\<rparr>))"

definition kobject_add :: "reg_env \<Rightarrow> bool \<Rightarrow> gendisk \<Rightarrow> int \<times> gendisk" where
  "kobject_add env parent d =
     (if \<not> ko_initialized (gd_kobj d) then (- EINVAL, d) else kobject_add_varg env parent d)"

definition kobject_del :: "gendisk \<Rightarrow> gendisk" where
  "kobject_del d =
     (kobject_put (ko_parent (gd_kobj d)) d)
       \<lparr>gd_kobj := (gd_kobj d)\<lparr>ko_in_sysfs := False, ko_parent := False\<rparr>\<rparr>"

text \<open>The value of \<open>get_disk\<close> says whether it returned the kobject of the disk.\<close>

definition get_disk :: "reg_env \<Rightarrow> gendisk \<Rightarrow> bool \<times> gendisk" where
  "get_disk env d =
     (if \<not> gd_fops d then (False, d)
      else if gd_owner d \<and> \<not> re_module env then (False, d)
      else (True, kobject_get True
              (d\<lparr>gd_module_refs := gd_module_refs d + (if gd_owner d then 1 else 0)\<rparr>)))"

definition put_disk :: "gendisk \<Rightarrow> gendisk" where
  "put_disk d = kobject_put True d"

section \<open>The scrubber thread\<close>

definition kscrubd_init :: "gendisk option \<Rightarrow> ('w \<Rightarrow> (int \<times> 'w) option) \<Rightarrow> 'w \<Rightarrow> (int \<times> 'w) option" where
  "kscrubd_init disk run w =
     (case disk of
        None \<Rightarrow> Some (1, w)
      | Some d \<Rightarrow>
          if \<not> gd_queue d then Some (1, w)
          else (case run w of Some (ret, w') \<Rightarrow> Some (0, w') | None \<Rightarrow> None))"

section \<open>Creation and release\<close>

text \<open>
  \<open>name_into\<close> writes the default names; a null buffer is followed when its allocation failed.
\<close>

definition name_buffer :: "bool \<Rightarrow> nat \<Rightarrow> string \<Rightarrow> string option" where
  "name_buffer allocated room name = (if allocated then name_into room name else None)"

definition blk_init_scrub :: "reg_env \<Rightarrow> gendisk \<Rightarrow> (bool \<times> gendisk) option" where
  "blk_init_scrub env d0 =
     (if \<not> gd_queue d0 then None
      else if \<not> re_scrubber env then Some (False, d0\<lparr>gd_scrubber := None, gd_queue_scrubber := False\<rparr>)
      else do {
        let d = d0\<lparr>gd_queue_scrubber := True\<rparr>;
        strat \<leftarrow> name_buffer (re_strategy env) SCRUB_STRAT_NAME_MAX ''seql'';
        prio \<leftarrow> name_buffer (re_priority env) SCRUB_PRIO_NAME_MAX ''idlechk'';
        let s = (default_scrubber (gd_name d))\<lparr>ds_strategy := strat, ds_priority := prio\<rparr>;
        Some (True, (kobject_init (d\<lparr>gd_scrubber := Some s, gd_freed := False, gd_kobj := zero_kobject\<rparr>))
          \<lparr>gd_task := Some (if re_kthread env then Task_running else Task_error)\<rparr>) })"

definition blk_release_scrub :: "gendisk \<Rightarrow> gendisk option" where
  "blk_release_scrub d =
     (case gd_task d of
        Some Task_running \<Rightarrow> Some (d\<lparr>gd_task := None, gd_freed := True\<rparr>)
      | _ \<Rightarrow> None)"

section \<open>Registration\<close>

definition blk_register_scrub :: "reg_env \<Rightarrow> gendisk \<Rightarrow> (int \<times> gendisk) option" where
  "blk_register_scrub env d = do {
     (created, d1) \<leftarrow> blk_init_scrub env d;
     if \<not> created then Some (- ENXIO, d1)
     else do {
       let (parent, d2) = get_disk env d1;
       let (ret, d3) = kobject_add env parent d2;
       if ret < 0 then Some (ret, d3)
       else Some (0, d3\<lparr>gd_uevents := gd_uevents d3 @ [KOBJ_ADD]\<rparr>) } }"

definition blk_unregister_scrub :: "gendisk \<Rightarrow> gendisk" where
  "blk_unregister_scrub d =
     (case gd_scrubber d of
        None \<Rightarrow> d\<lparr>gd_warnings := gd_warnings d + 1\<rparr>
      | Some s \<Rightarrow> put_disk (kobject_del (d\<lparr>gd_uevents := gd_uevents d @ [KOBJ_REMOVE]\<rparr>)))"

section \<open>Disks come and go\<close>

text \<open>The block majors that get a scrubber.\<close>

definition scrub_majors :: "int list" where
  "scrub_majors =
     [3, 13, 22, 33, 34, 56, 57, 88, 89, 90, 91,
      8, 65, 66, 67, 68, 69, 70, 71, 128, 129, 130, 131, 132, 133, 134, 135,
      9, 98]"

definition add_disk_scrub :: "reg_env \<Rightarrow> gendisk \<Rightarrow> gendisk option" where
  "add_disk_scrub env d =
     (if gd_major d \<in> set scrub_majors then map_option snd (blk_register_scrub env d) else Some d)"

definition unlink_gendisk_scrub :: "gendisk \<Rightarrow> gendisk" where
  "unlink_gendisk_scrub d = blk_unregister_scrub d"

section \<open>The life of a scrubber\<close>

lemma default_names:
  "name_into 10 ''seql'' = Some ''seql''" "name_into 10 ''idlechk'' = Some ''idlechk''"
  by (rule name_into_fits; simp add: is_cstring_def)+

text \<open>Every allocation and every call below succeeds.\<close>

definition all_succeed :: "reg_env \<Rightarrow> bool" where
  "all_succeed env \<longleftrightarrow> re_scrubber env \<and> re_strategy env \<and> re_priority env \<and> re_kthread env \<and>
     re_module env \<and> re_set_name env = 0 \<and> re_create_dir env = 0"

lemma init_scrub_default:
  assumes "gd_queue d" "re_scrubber env" "re_strategy env" "re_priority env"
  shows "blk_init_scrub env d = Some (True, d\<lparr>gd_scrubber := Some (default_scrubber (gd_name d)),
    gd_queue_scrubber := True, gd_task := Some (if re_kthread env then Task_running else Task_error),
    gd_freed := False,
    gd_kobj := \<lparr>ko_kref = 1, ko_initialized = True, ko_in_sysfs = False, ko_parent = False\<rparr>\<rparr>)"
proof -
  have "(default_scrubber n)\<lparr>ds_strategy := ''seql'', ds_priority := ''idlechk''\<rparr> = default_scrubber n" for n
    by (simp add: default_scrubber_def)
  then show ?thesis
    using assms by (simp add: blk_init_scrub_def name_buffer_def default_names kobject_init_def
        zero_kobject_def Let_def)
qed

text \<open>A disk of the kind \<open>add_disk\<close> gives a scrubber, and that has none yet.\<close>

definition sample_disk :: gendisk where
  "sample_disk = \<lparr>gd_name = ''sda'', gd_major = 8, gd_queue = True, gd_fops = True, gd_owner = True,
     gd_scrubber = None, gd_queue_scrubber = False, gd_task = None,
     gd_kobj = zero_kobject,
     gd_freed = False, gd_refs = 3, gd_module_refs = 1, gd_uevents = [], gd_warnings = 0\<rparr>"

definition sample_reg_env :: reg_env where
  "sample_reg_env = \<lparr>re_scrubber = True, re_strategy = True, re_priority = True, re_kthread = True,
     re_module = True, re_set_name = 0, re_create_dir = 0\<rparr>"

lemma sample_succeeds [simp]: "all_succeed sample_reg_env"
  by (simp add: all_succeed_def sample_reg_env_def)

lemma register_succeeds:
  assumes "all_succeed env" "gd_queue d" "gd_fops d"
  shows "blk_register_scrub env d = Some (0, d\<lparr>gd_scrubber := Some (default_scrubber (gd_name d)),
    gd_queue_scrubber := True, gd_task := Some Task_running, gd_freed := False,
    gd_kobj := \<lparr>ko_kref = 1, ko_initialized = True, ko_in_sysfs = True, ko_parent = True\<rparr>,
    gd_refs := gd_refs d + 2, gd_module_refs := gd_module_refs d + (if gd_owner d then 1 else 0),
    gd_uevents := gd_uevents d @ [KOBJ_ADD]\<rparr>)"
  using assms init_scrub_default [of d env]
  by (simp add: blk_register_scrub_def all_succeed_def get_disk_def kobject_add_def
      kobject_add_varg_def kobject_add_internal_def kobject_get_def)

lemma unregister_registered:
  assumes "all_succeed env" "gd_queue d" "gd_fops d" "blk_register_scrub env d = Some (0, d1)"
  shows "blk_unregister_scrub d1 = d1\<lparr>gd_refs := gd_refs d,
    gd_kobj := \<lparr>ko_kref = 1, ko_initialized = True, ko_in_sysfs = False, ko_parent = False\<rparr>,
    gd_uevents := gd_uevents d @ [KOBJ_ADD, KOBJ_REMOVE]\<rparr>"
  using assms(4) unfolding register_succeeds [OF assms(1-3)]
  by (auto simp: blk_unregister_scrub_def put_disk_def kobject_del_def kobject_put_def)

text \<open>
  C29: A disk of one of the listed majors gets a scrubber with the default parameters, in range and
  switched off, with its task running and its directory in sysfs. When the disk goes, the directory
  is removed, user space has seen one add and one remove event, and every reference taken on the
  disk is given back. The scrubber itself stays: its kobject keeps its first reference, so that it
  is never released, its task runs on, and the reference to the driver module is kept. A disk of
  any other major is left alone when it comes, and its removal raises a warning.
\<close>

theorem disk_comes_and_goes:
  assumes "all_succeed env" "gd_queue d" "gd_fops d" "gd_scrubber d = None"
  shows "\<exists>d1. add_disk_scrub env d = Some d1 \<and>
    (if gd_major d \<in> set scrub_majors then
       gd_scrubber d1 = Some (default_scrubber (gd_name d)) \<and>
       scrubber_wf capacity (default_scrubber (gd_name d)) \<and>
       ko_in_sysfs (gd_kobj d1) \<and> \<not> ko_in_sysfs (gd_kobj (unlink_gendisk_scrub d1)) \<and>
       gd_refs (unlink_gendisk_scrub d1) = gd_refs d \<and>
       gd_uevents (unlink_gendisk_scrub d1) = gd_uevents d @ [KOBJ_ADD, KOBJ_REMOVE] \<and>
       ko_kref (gd_kobj (unlink_gendisk_scrub d1)) = 1 \<and>
       gd_task (unlink_gendisk_scrub d1) = Some Task_running \<and> \<not> gd_freed (unlink_gendisk_scrub d1) \<and>
       gd_module_refs (unlink_gendisk_scrub d1) = gd_module_refs d + (if gd_owner d then 1 else 0)
     else d1 = d \<and> unlink_gendisk_scrub d1 = d\<lparr>gd_warnings := gd_warnings d + 1\<rparr>)"
proof (cases "gd_major d \<in> set scrub_majors")
  case True
  obtain d1 where d1: "blk_register_scrub env d = Some (0, d1)"
    using register_succeeds [OF assms(1-3)] by blast
  show ?thesis
    using True d1 register_succeeds [OF assms(1-3)] unregister_registered [OF assms(1-3) d1]
    by (auto simp: add_disk_scrub_def unlink_gendisk_scrub_def default_scrubber_wf)
next
  case False
  then show ?thesis
    using assms(4) by (simp add: add_disk_scrub_def unlink_gendisk_scrub_def blk_unregister_scrub_def)
qed

theorem disk_comes_and_goes_witness:
  "\<exists>d1. add_disk_scrub sample_reg_env sample_disk = Some d1 \<and>
     gd_scrubber d1 = Some (default_scrubber ''sda'') \<and> gd_refs (unlink_gendisk_scrub d1) = 3 \<and>
     gd_module_refs (unlink_gendisk_scrub d1) = 2"
  using disk_comes_and_goes [OF sample_succeeds, of sample_disk 100]
  by (auto simp: sample_disk_def scrub_majors_def)

text \<open>
  C36: When the directory of the scrubber cannot be created, registration reports the error but does
  not undo what it has done: the reference on the disk that \<open>get_disk\<close> took is lost and the
  scrubber task keeps running.
\<close>

theorem failed_registration_leaks:
  assumes "re_scrubber env" "re_strategy env" "re_priority env" "re_kthread env" "re_module env"
    and "re_set_name env < 0 \<or> re_set_name env = 0 \<and> re_create_dir env < 0" and "gd_queue d" "gd_fops d"
  shows "\<exists>ret d'. blk_register_scrub env d = Some (ret, d') \<and> ret < 0 \<and> gd_refs d' = gd_refs d + 1 \<and>
    gd_task d' = Some Task_running \<and> \<not> ko_in_sysfs (gd_kobj d') \<and> gd_uevents d' = gd_uevents d"
  using assms init_scrub_default [of d env]
  by (auto simp: blk_register_scrub_def get_disk_def kobject_add_def kobject_add_varg_def kobject_add_internal_def
      kobject_get_def kobject_put_def)

theorem failed_registration_leaks_witness:
  "\<exists>ret d'. blk_register_scrub (sample_reg_env\<lparr>re_create_dir := - 17\<rparr>) sample_disk = Some (ret, d') \<and>
     ret < 0 \<and> gd_refs d' = gd_refs sample_disk + 1 \<and> gd_task d' = Some Task_running \<and>
     \<not> ko_in_sysfs (gd_kobj d') \<and> gd_uevents d' = gd_uevents sample_disk"
  by (rule failed_registration_leaks) (simp_all add: sample_reg_env_def sample_disk_def)

text \<open>
  Registration follows a bad pointer exactly when the disk has no queue, or when the scrubber
  could be allocated but not one of its two name buffers; if the scrubber cannot be allocated it
  returns \<open>-ENXIO\<close>.
\<close>

theorem registration_faults:
  "(blk_register_scrub env d = None \<longleftrightarrow>
      \<not> gd_queue d \<or> re_scrubber env \<and> \<not> (re_strategy env \<and> re_priority env)) \<and>
   (\<forall>ret d'. blk_register_scrub env d = Some (ret, d') \<and> \<not> re_scrubber env \<longrightarrow> ret = - ENXIO)"
  by (auto simp: blk_register_scrub_def blk_init_scrub_def name_buffer_def default_names Let_def
      split: prod.splits option.splits if_splits)

theorem registration_faults_witness:
  "blk_register_scrub (sample_reg_env\<lparr>re_priority := False\<rparr>) sample_disk = None \<and>
   map_option fst (blk_register_scrub (sample_reg_env\<lparr>re_scrubber := False\<rparr>) sample_disk) = Some (- ENXIO)"
proof -
  obtain ret d' where "blk_register_scrub (sample_reg_env\<lparr>re_scrubber := False\<rparr>) sample_disk = Some (ret, d')"
    using registration_faults [of "sample_reg_env\<lparr>re_scrubber := False\<rparr>" sample_disk]
    by (auto simp: sample_reg_env_def sample_disk_def)
  then show ?thesis
    using registration_faults [of "sample_reg_env\<lparr>re_priority := False\<rparr>" sample_disk]
      registration_faults [of "sample_reg_env\<lparr>re_scrubber := False\<rparr>" sample_disk]
    by (auto simp: sample_reg_env_def sample_disk_def)
qed

end
