(* ===== verification/Scrub_Handoff.thy ===== *)
theory Scrub_Handoff
  imports Scrub_Types "HOL-Library.Multiset"
begin

text \<open>
  The hand-over of segments between the scrubber task and its threads as an interleaving: \<open>segread\<close>
  and the end of a round in \<open>scrubber\<close> (the master), and \<open>kthread_segread\<close> (the workers), of
  \<^verbatim>\<open>block/scrub_core.c\<close>. Each step is one access to the shared data: the counter of available
  threads, the barrier of a thread, and the state, position and length in its thread data. A
  program counter says where a task is between two accesses. \<open>Scrub_Worker\<close> models the same code
  when every thread runs to its next sleep before the master goes on.

  A thread in the loop around \<open>spin_trylock\<close> may run again at any time, so that sleeping and waking
  up need no state of their own. The verification of a segment is one step, and so are the two
  accesses to \<open>available\<close> under its mutex. The delay \<open>delayms\<close> and the wait of the master for the
  thread to sleep change no shared data; leaving them out adds interleavings and removes none. The
  schedules at the end of the theory respect that wait: the thread is asleep behind its barrier
  whenever the master goes on after \<open>MRaise\<close>.
\<close>

section \<open>Program counters\<close>

datatype worker_pc =
    WStart | WReport | WBarrier | WPassed | WSwitch | WLoad | WLoadCount u64 | WVerify u64 u64
  | WIdle | WCount | WExit

datatype master_pc =
    MNext | MWait u64 u64 | MDec u64 u64 | MFind u64 u64 nat | MBusy u64 u64 nat | MPos u64 u64 nat
  | MCount u64 u64 nat | MRaise u64 u64 nat | MStop nat | MJoin nat | MDone

record handoff =
  h_available :: int
  h_barrier :: "bool list"
  h_tdata :: "scrub_thread_data list"
  h_stop :: "bool list"
  h_wpc :: "worker_pc list"
  h_mpc :: master_pc
  h_todo :: "(u64 \<times> u64) list"
  h_verified :: "(u64 \<times> u64) list"

section \<open>The steps of a thread\<close>

definition goto :: "nat \<Rightarrow> worker_pc \<Rightarrow> handoff \<Rightarrow> handoff" where
  "goto i pc h = h\<lparr>h_wpc := (h_wpc h)[i := pc]\<rparr>"

definition set_td :: "nat \<Rightarrow> (scrub_thread_data \<Rightarrow> scrub_thread_data) \<Rightarrow> handoff \<Rightarrow> handoff" where
  "set_td i f h = h\<lparr>h_tdata := (h_tdata h)[i := f (h_tdata h ! i)]\<rparr>"

definition set_barrier :: "nat \<Rightarrow> bool \<Rightarrow> handoff \<Rightarrow> handoff" where
  "set_barrier i b h = h\<lparr>h_barrier := (h_barrier h)[i := b]\<rparr>"

text \<open>\<open>None\<close>: the thread has no step to make.\<close>

definition worker_step :: "nat \<Rightarrow> handoff \<Rightarrow> handoff option" where
  "worker_step i h =
     (let d = h_tdata h ! i in
      case h_wpc h ! i of
        WStart \<Rightarrow> Some (goto i WReport (set_td i (td_state_update (\<lambda>_. TIDLE)) h))
      | WReport \<Rightarrow> Some (goto i WBarrier (h\<lparr>h_available := h_available h + 1\<rparr>))
      | WBarrier \<Rightarrow>
          if \<not> h_barrier h ! i then Some (goto i WPassed (set_barrier i True h))
          else if h_stop h ! i then Some (goto i WPassed h)
          else Some h
      | WPassed \<Rightarrow> Some (goto i (if h_stop h ! i then WExit else WSwitch) h)
      | WSwitch \<Rightarrow> Some (goto i (if td_state d = TBUSY then WLoad else WBarrier) h)
      | WLoad \<Rightarrow> Some (goto i (WLoadCount (td_pos d)) h)
      | WLoadCount pos \<Rightarrow> Some (goto i (WVerify pos (td_count d)) h)
      | WVerify pos num \<Rightarrow> Some (goto i WIdle (h\<lparr>h_verified := h_verified h @ [(pos, num)]\<rparr>))
      | WIdle \<Rightarrow> Some (goto i WCount (set_td i (td_state_update (\<lambda>_. TIDLE)) h))
      | WCount \<Rightarrow> Some (goto i WBarrier (h\<lparr>h_available := h_available h + 1\<rparr>))
      | WExit \<Rightarrow> None)"

section \<open>The steps of the master\<close>

definition master_step :: "handoff \<Rightarrow> handoff option" where
  "master_step h =
     (case h_mpc h of
        MNext \<Rightarrow>
          (case h_todo h of
             [] \<Rightarrow> Some (h\<lparr>h_mpc := MStop 0\<rparr>)
           | (pos, num) # rest \<Rightarrow> Some (h\<lparr>h_mpc := MWait pos num, h_todo := rest\<rparr>))
      | MWait pos num \<Rightarrow> if h_available h \<noteq> 0 then Some (h\<lparr>h_mpc := MDec pos num\<rparr>) else Some h
      | MDec pos num \<Rightarrow> Some (h\<lparr>h_mpc := MFind pos num 0, h_available := h_available h - 1\<rparr>)
      | MFind pos num t \<Rightarrow>
          if td_state (h_tdata h ! t) = TIDLE then Some (h\<lparr>h_mpc := MBusy pos num t\<rparr>)
          else Some (h\<lparr>h_mpc := MFind pos num ((t + 1) mod length (h_tdata h))\<rparr>)
      | MBusy pos num t \<Rightarrow> Some ((set_td t (td_state_update (\<lambda>_. TBUSY)) h)\<lparr>h_mpc := MPos pos num t\<rparr>)
      | MPos pos num t \<Rightarrow> Some ((set_td t (td_pos_update (\<lambda>_. pos)) h)\<lparr>h_mpc := MCount pos num t\<rparr>)
      | MCount pos num t \<Rightarrow> Some ((set_td t (td_count_update (\<lambda>_. num)) h)\<lparr>h_mpc := MRaise pos num t\<rparr>)
      | MRaise pos num t \<Rightarrow> Some ((set_barrier t False h)\<lparr>h_mpc := MNext\<rparr>)
      | MStop t \<Rightarrow>
          if t < length (h_tdata h) then Some (h\<lparr>h_stop := (h_stop h)[t := True], h_mpc := MJoin t\<rparr>)
          else Some (h\<lparr>h_mpc := MDone\<rparr>)
      | MJoin t \<Rightarrow> if h_wpc h ! t = WExit then Some (h\<lparr>h_mpc := MStop (t + 1)\<rparr>) else Some h
      | MDone \<Rightarrow> None)"

section \<open>Interleaving\<close>

inductive handoff_step :: "handoff \<Rightarrow> handoff \<Rightarrow> bool" where
  master: "master_step h = Some h' \<Longrightarrow> handoff_step h h'"
| worker: "i < length (h_wpc h) \<Longrightarrow> worker_step i h = Some h' \<Longrightarrow> handoff_step h h'"

inductive handoff_reach :: "handoff \<Rightarrow> handoff \<Rightarrow> bool" where
  refl: "handoff_reach h h"
| step: "handoff_reach h h' \<Longrightarrow> handoff_step h' h'' \<Longrightarrow> handoff_reach h h''"

inductive_cases handoff_stepE: "handoff_step h h'"

text \<open>A schedule: \<open>None\<close> lets the master make a step, \<open>Some i\<close> thread \<open>i\<close>.\<close>

fun run_schedule :: "nat option list \<Rightarrow> handoff \<Rightarrow> handoff option" where
  "run_schedule [] h = Some h"
| "run_schedule (None # sch) h = Option.bind (master_step h) (run_schedule sch)"
| "run_schedule (Some i # sch) h =
     (if i < length (h_wpc h) then Option.bind (worker_step i h) (run_schedule sch) else None)"

text \<open>The threads were created and have not run yet; \<open>spin_lock_init\<close> leaves the barriers open.\<close>

definition start_handoff :: "nat \<Rightarrow> (u64 \<times> u64) list \<Rightarrow> handoff" where
  "start_handoff n segs =
     \<lparr>h_available = 0, h_barrier = replicate n False,
      h_tdata = map (\<lambda>i. \<lparr>td_pos = 0, td_count = 0, td_state = TINIT, td_tid = i\<rparr>) [0..<n],
      h_stop = replicate n False, h_wpc = replicate n WStart, h_mpc = MNext, h_todo = segs,
      h_verified = []\<rparr>"

text \<open>Every thread has reported itself idle, passed its open barrier once and sleeps.\<close>

definition settled_handoff :: "nat \<Rightarrow> (u64 \<times> u64) list \<Rightarrow> handoff" where
  "settled_handoff n segs =
     \<lparr>h_available = int n, h_barrier = replicate n True,
      h_tdata = map (\<lambda>i. \<lparr>td_pos = 0, td_count = 0, td_state = TIDLE, td_tid = i\<rparr>) [0..<n],
      h_stop = replicate n False, h_wpc = replicate n WBarrier, h_mpc = MNext, h_todo = segs,
      h_verified = []\<rparr>"

section \<open>The invariant of the hand-over\<close>

text \<open>The segment the master is handing over, and the thread it has claimed.\<close>

fun in_hand :: "master_pc \<Rightarrow> (u64 \<times> u64) multiset" where
  "in_hand (MWait pos num) = {#(pos, num)#}"
| "in_hand (MDec pos num) = {#(pos, num)#}"
| "in_hand (MFind pos num t) = {#(pos, num)#}"
| "in_hand (MBusy pos num t) = {#(pos, num)#}"
| "in_hand (MPos pos num t) = {#(pos, num)#}"
| "in_hand (MCount pos num t) = {#(pos, num)#}"
| "in_hand (MRaise pos num t) = {#(pos, num)#}"
| "in_hand _ = {#}"

fun claimed :: "master_pc \<Rightarrow> nat option" where
  "claimed (MBusy pos num t) = Some t"
| "claimed (MPos pos num t) = Some t"
| "claimed (MCount pos num t) = Some t"
| "claimed (MRaise pos num t) = Some t"
| "claimed _ = None"

text \<open>The master has taken a thread from the count but has not marked one busy yet.\<close>

fun taken :: "master_pc \<Rightarrow> int" where
  "taken (MFind pos num t) = 1"
| "taken (MBusy pos num t) = 1"
| "taken _ = 0"

text \<open>The data of the claimed thread while the master fills it in.\<close>

fun filled_in :: "master_pc \<Rightarrow> scrub_thread_data \<Rightarrow> bool" where
  "filled_in (MBusy pos num t) d = (td_state d = TIDLE)"
| "filled_in (MPos pos num t) d = (td_state d = TBUSY)"
| "filled_in (MCount pos num t) d = (td_state d = TBUSY \<and> td_pos d = pos)"
| "filled_in (MRaise pos num t) d = (td_state d = TBUSY \<and> td_pos d = pos \<and> td_count d = num)"
| "filled_in _ d = False"

definition worker_inv :: "master_pc \<Rightarrow> worker_pc \<Rightarrow> bool \<Rightarrow> scrub_thread_data \<Rightarrow> nat \<Rightarrow> bool" where
  "worker_inv mpc pc locked d i \<longleftrightarrow>
     (case pc of
        WBarrier \<Rightarrow> if claimed mpc = Some i then locked \<and> filled_in mpc d
                    else td_state d = (if locked then TIDLE else TBUSY)
      | WCount \<Rightarrow> if claimed mpc = Some i then locked \<and> filled_in mpc d
                    else td_state d = (if locked then TIDLE else TBUSY)
      | WPassed \<Rightarrow> locked \<and> td_state d = TBUSY \<and> claimed mpc \<noteq> Some i
      | WSwitch \<Rightarrow> locked \<and> td_state d = TBUSY \<and> claimed mpc \<noteq> Some i
      | WLoad \<Rightarrow> locked \<and> td_state d = TBUSY \<and> claimed mpc \<noteq> Some i
      | WLoadCount pos \<Rightarrow> locked \<and> td_state d = TBUSY \<and> claimed mpc \<noteq> Some i \<and> pos = td_pos d
      | WVerify pos num \<Rightarrow> locked \<and> td_state d = TBUSY \<and> claimed mpc \<noteq> Some i
      | WIdle \<Rightarrow> locked \<and> td_state d = TBUSY \<and> claimed mpc \<noteq> Some i
      | _ \<Rightarrow> False)"

text \<open>The segment a thread has been given and has not verified yet.\<close>

definition assigned :: "worker_pc \<Rightarrow> bool \<Rightarrow> scrub_thread_data \<Rightarrow> (u64 \<times> u64) multiset" where
  "assigned pc locked d =
     (case pc of
        WBarrier \<Rightarrow> if locked then {#} else {#(td_pos d, td_count d)#}
      | WCount \<Rightarrow> if locked then {#} else {#(td_pos d, td_count d)#}
      | WPassed \<Rightarrow> {#(td_pos d, td_count d)#}
      | WSwitch \<Rightarrow> {#(td_pos d, td_count d)#}
      | WLoad \<Rightarrow> {#(td_pos d, td_count d)#}
      | WLoadCount pos \<Rightarrow> {#(pos, td_count d)#}
      | WVerify pos num \<Rightarrow> {#(pos, num)#}
      | _ \<Rightarrow> {#})"

text \<open>What a thread contributes to the count of available threads.\<close>

definition counts :: "worker_pc \<Rightarrow> scrub_thread_data \<Rightarrow> int" where
  "counts pc d = (if td_state d = TIDLE then 1 else 0) - (if pc = WCount then 1 else 0)"

definition master_inv :: "nat \<Rightarrow> handoff \<Rightarrow> bool" where
  "master_inv n h \<longleftrightarrow> 0 \<le> h_available h \<and>
     (case h_mpc h of
        MDec pos num \<Rightarrow> 0 < h_available h
      | MFind pos num t \<Rightarrow> t < n
      | MBusy pos num t \<Rightarrow> t < n
      | MPos pos num t \<Rightarrow> t < n
      | MCount pos num t \<Rightarrow> t < n
      | MRaise pos num t \<Rightarrow> t < n
      | MStop t \<Rightarrow> False
      | MJoin t \<Rightarrow> False
      | MDone \<Rightarrow> False
      | _ \<Rightarrow> True)"

definition assigned_all :: "nat \<Rightarrow> handoff \<Rightarrow> (u64 \<times> u64) multiset" where
  "assigned_all n h = (\<Sum>i<n. assigned (h_wpc h ! i) (h_barrier h ! i) (h_tdata h ! i))"

definition counts_all :: "nat \<Rightarrow> handoff \<Rightarrow> int" where
  "counts_all n h = (\<Sum>i<n. counts (h_wpc h ! i) (h_tdata h ! i))"

definition handoff_inv :: "nat \<Rightarrow> (u64 \<times> u64) multiset \<Rightarrow> handoff \<Rightarrow> bool" where
  "handoff_inv n segs h \<longleftrightarrow>
     length (h_barrier h) = n \<and> length (h_tdata h) = n \<and> length (h_wpc h) = n \<and>
     h_stop h = replicate n False \<and> master_inv n h \<and>
     (\<forall>i<n. worker_inv (h_mpc h) (h_wpc h ! i) (h_barrier h ! i) (h_tdata h ! i) i) \<and>
     counts_all n h = h_available h + taken (h_mpc h) \<and>
     mset (h_todo h) + in_hand (h_mpc h) + assigned_all n h + mset (h_verified h) = segs"

lemma settled_inv: "handoff_inv n (mset segs) (settled_handoff n segs)"
  by (simp add: handoff_inv_def settled_handoff_def master_inv_def worker_inv_def counts_all_def
      counts_def assigned_all_def assigned_def)

lemma sum_change:
  fixes f g :: "nat \<Rightarrow> 'a :: comm_monoid_add"
  assumes "i < n" "\<And>j. j < n \<Longrightarrow> j \<noteq> i \<Longrightarrow> g j = f j"
  shows "sum g {..<n} + f i = sum f {..<n} + g i"
proof -
  have "sum g ({..<n} - {i}) = sum f ({..<n} - {i})" using assms(2) by (intro sum.cong) auto
  then show ?thesis
    using assms(1) by (simp add: sum.remove [of "{..<n}" i f] sum.remove [of "{..<n}" i g] add.commute add.left_commute)
qed

lemma worker_inv_unclaimed:
  "claimed mpc \<noteq> Some j \<Longrightarrow> claimed mpc' \<noteq> Some j \<Longrightarrow> worker_inv mpc' pc locked d j = worker_inv mpc pc locked d j"
  by (simp add: worker_inv_def cong: worker_pc.case_cong)

text \<open>
  A step that changes the data of one thread \<open>i\<close> keeps the invariant when the sums stay balanced
  at \<open>i\<close>.
\<close>

lemma handoff_change:
  assumes inv: "handoff_inv n segs h" and i: "i < n"
    and h': "h' = h\<lparr>h_wpc := (h_wpc h)[i := pc'], h_barrier := (h_barrier h)[i := b'],
        h_tdata := (h_tdata h)[i := d'], h_available := a', h_verified := v', h_mpc := mpc'\<rparr>"
    and others: "mpc' = h_mpc h \<or> (\<forall>j. j \<noteq> i \<longrightarrow> claimed mpc' \<noteq> Some j \<and> claimed (h_mpc h) \<noteq> Some j)"
    and worker: "worker_inv mpc' pc' b' d' i" and master: "master_inv n h'"
    and count: "counts pc' d' + h_available h + taken (h_mpc h)
        = counts (h_wpc h ! i) (h_tdata h ! i) + a' + taken mpc'"
    and segments: "in_hand mpc' + assigned pc' b' d' + mset v'
        = in_hand (h_mpc h) + assigned (h_wpc h ! i) (h_barrier h ! i) (h_tdata h ! i) + mset (h_verified h)"
  shows "handoff_inv n segs h'"
proof -
  have len: "length (h_barrier h) = n" "length (h_tdata h) = n" "length (h_wpc h) = n"
    using inv by (simp_all add: handoff_inv_def)
  have all: "worker_inv mpc' (h_wpc h' ! j) (h_barrier h' ! j) (h_tdata h' ! j) j" if "j < n" for j
  proof (cases "j = i")
    case True
    then show ?thesis using worker i len by (simp add: h')
  next
    case False
    then show ?thesis
      using inv that others worker_inv_unclaimed [of "h_mpc h" j mpc'] by (auto simp: h' handoff_inv_def)
  qed
  have "counts_all n h' + counts (h_wpc h ! i) (h_tdata h ! i) = counts_all n h + counts pc' d'"
    unfolding counts_all_def using i len
    by (subst sum_change [where i = i and f = "\<lambda>j. counts (h_wpc h ! j) (h_tdata h ! j)"]) (auto simp: h')
  then have cnt: "counts_all n h' = a' + taken mpc'" using count inv by (simp add: handoff_inv_def)
  have "assigned_all n h' + assigned (h_wpc h ! i) (h_barrier h ! i) (h_tdata h ! i)
      = assigned_all n h + assigned pc' b' d'"
    unfolding assigned_all_def using i len
    by (subst sum_change [where i = i and
          f = "\<lambda>j. assigned (h_wpc h ! j) (h_barrier h ! j) (h_tdata h ! j)"]) (auto simp: h')
  then have "assigned_all n h' + assigned (h_wpc h ! i) (h_barrier h ! i) (h_tdata h ! i)
        + (in_hand mpc' + mset v')
      = assigned_all n h + (in_hand mpc' + assigned pc' b' d' + mset v')"
    by (simp add: ac_simps)
  also have "\<dots> = assigned_all n h + assigned (h_wpc h ! i) (h_barrier h ! i) (h_tdata h ! i)
      + (in_hand (h_mpc h) + mset (h_verified h))"
    unfolding segments by (simp add: ac_simps)
  finally have moved: "assigned_all n h' + (in_hand mpc' + mset v')
      = assigned_all n h + (in_hand (h_mpc h) + mset (h_verified h))"
    by (simp add: ac_simps)
  have "mset (h_todo h) + (assigned_all n h + (in_hand (h_mpc h) + mset (h_verified h))) = segs"
    using inv by (simp add: handoff_inv_def ac_simps)
  then have "mset (h_todo h) + in_hand mpc' + assigned_all n h' + mset v' = segs"
    unfolding moved [symmetric] by (simp add: ac_simps)
  with all cnt master inv show ?thesis by (simp add: handoff_inv_def h')
qed

lemma handoff_quiet:
  assumes inv: "handoff_inv n segs h"
    and h': "h' = h\<lparr>h_mpc := mpc', h_todo := todo', h_available := a'\<rparr>"
    and free: "claimed mpc' = None" "claimed (h_mpc h) = None" and master: "master_inv n h'"
    and count: "h_available h + taken (h_mpc h) = a' + taken mpc'"
    and segments: "mset todo' + in_hand mpc' = mset (h_todo h) + in_hand (h_mpc h)"
  shows "handoff_inv n segs h'"
proof -
  have "worker_inv mpc' pc b d j = worker_inv (h_mpc h) pc b d j" for pc b d j
    using free by (intro worker_inv_unclaimed) simp_all
  moreover have "counts_all n h' = counts_all n h" "assigned_all n h' = assigned_all n h"
    by (simp_all add: counts_all_def assigned_all_def h')
  ultimately show ?thesis
    using inv master count segments by (simp add: handoff_inv_def h')
qed

lemma locked_same [simp]: "xs ! i \<Longrightarrow> xs[i := True] = xs"
  by (metis (full_types) list_update_id)

lemma master_inv_worker:
  "master_inv n h \<Longrightarrow> h_mpc h' = h_mpc h \<Longrightarrow> h_available h \<le> h_available h' \<Longrightarrow> master_inv n h'"
  by (auto simp: master_inv_def split: master_pc.splits)

text \<open>A step of thread \<open>i\<close>.\<close>

lemma worker_moves:
  assumes inv: "handoff_inv n segs h" and i: "i < n"
    and h': "h' = h\<lparr>h_wpc := (h_wpc h)[i := pc'], h_barrier := (h_barrier h)[i := b'],
        h_tdata := (h_tdata h)[i := d'], h_available := a', h_verified := v', h_mpc := h_mpc h\<rparr>"
    and "worker_inv (h_mpc h) pc' b' d' i" "h_available h \<le> a'"
      "counts pc' d' + h_available h = counts (h_wpc h ! i) (h_tdata h ! i) + a'"
      "assigned pc' b' d' + mset v' = assigned (h_wpc h ! i) (h_barrier h ! i) (h_tdata h ! i) + mset (h_verified h)"
  shows "handoff_inv n segs h'"
proof -
  have "master_inv n h" using inv by (simp add: handoff_inv_def)
  then have "master_inv n h'" by (rule master_inv_worker) (simp_all add: h' assms(5))
  then show ?thesis using assms(4-) by (intro handoff_change [OF inv i h']) (simp_all add: ac_simps)
qed

lemmas handoff_steps = worker_step_def master_step_def goto_def set_td_def set_barrier_def worker_inv_def
  assigned_def counts_def

lemma worker_step_inv:
  assumes inv: "handoff_inv n segs h" and i: "i < n" and step: "worker_step i h = Some h'"
  shows "handoff_inv n segs h'"
proof -
  let ?pc = "h_wpc h ! i" and ?b = "h_barrier h ! i" and ?d = "h_tdata h ! i"
    and ?a = "h_available h" and ?v = "h_verified h"
  have wi: "worker_inv (h_mpc h) ?pc ?b ?d i" and stop: "\<not> h_stop h ! i"
    using inv i by (simp_all add: handoff_inv_def)
  note move = worker_moves [OF inv i]
  show ?thesis
  proof (cases ?pc)
    case WBarrier
    show ?thesis
    proof (cases ?b)
      case True
      then show ?thesis using step WBarrier stop inv by (simp add: worker_step_def Let_def)
    next
      case False
      then show ?thesis using step WBarrier wi
        by (intro move [where pc' = WPassed and b' = True and d' = ?d and a' = ?a and v' = ?v])
          (auto simp: handoff_steps split: if_splits)
    qed
  next
    case WPassed
    then show ?thesis using step wi stop
      by (intro move [where pc' = WSwitch and b' = ?b and d' = ?d and a' = ?a and v' = ?v]) (auto simp: handoff_steps)
  next
    case WSwitch
    then show ?thesis using step wi
      by (intro move [where pc' = WLoad and b' = ?b and d' = ?d and a' = ?a and v' = ?v]) (auto simp: handoff_steps)
  next
    case WLoad
    then show ?thesis using step wi
      by (intro move [where pc' = "WLoadCount (td_pos ?d)" and b' = ?b and d' = ?d and a' = ?a and v' = ?v])
        (auto simp: handoff_steps)
  next
    case (WLoadCount pos)
    then show ?thesis using step wi
      by (intro move [where pc' = "WVerify pos (td_count ?d)" and b' = ?b and d' = ?d and a' = ?a and v' = ?v])
        (auto simp: handoff_steps)
  next
    case (WVerify pos num)
    then show ?thesis using step wi
      by (intro move [where pc' = WIdle and b' = ?b and d' = ?d and a' = ?a and v' = "?v @ [(pos, num)]"])
        (auto simp: handoff_steps)
  next
    case WIdle
    then show ?thesis using step wi
      by (intro move [where pc' = WCount and b' = ?b and d' = "?d\<lparr>td_state := TIDLE\<rparr>" and a' = ?a and v' = ?v])
        (auto simp: handoff_steps)
  next
    case WCount
    then show ?thesis using step wi
      by (intro move [where pc' = WBarrier and b' = ?b and d' = ?d and a' = "?a + 1" and v' = ?v])
        (auto simp: handoff_steps)
  qed (use wi in \<open>simp_all add: worker_inv_def\<close>)
qed

lemma idle_worker:
  "worker_inv mpc pc b d t \<Longrightarrow> claimed mpc = None \<Longrightarrow> td_state d = TIDLE \<Longrightarrow> pc \<in> {WBarrier, WCount} \<and> b"
  by (auto simp: worker_inv_def split: worker_pc.splits if_splits)

lemma claimed_worker:
  "worker_inv mpc pc b d t \<Longrightarrow> claimed mpc = Some t \<Longrightarrow> pc \<in> {WBarrier, WCount} \<and> b \<and> filled_in mpc d"
  by (auto simp: worker_inv_def split: worker_pc.splits if_splits)

lemma claimed_thread:
  assumes inv: "handoff_inv n segs h" and t: "claimed (h_mpc h) = Some t"
  shows "t < n" "h_wpc h ! t \<in> {WBarrier, WCount} \<and> h_barrier h ! t \<and> filled_in (h_mpc h) (h_tdata h ! t)"
proof -
  show *: "t < n" using inv t by (cases "h_mpc h") (auto simp: handoff_inv_def master_inv_def)
  show "h_wpc h ! t \<in> {WBarrier, WCount} \<and> h_barrier h ! t \<and> filled_in (h_mpc h) (h_tdata h ! t)"
    using inv * t by (intro claimed_worker) (simp_all add: handoff_inv_def)
qed

text \<open>A step of the master that changes the data of thread \<open>t\<close>.\<close>

lemma master_fills:
  assumes inv: "handoff_inv n segs h" and t: "t < n"
    and mpc: "claimed (h_mpc h) \<in> {None, Some t}" "claimed mpc' \<in> {None, Some t}"
    and h': "h' = h\<lparr>h_wpc := (h_wpc h)[t := h_wpc h ! t], h_barrier := (h_barrier h)[t := b'],
        h_tdata := (h_tdata h)[t := d'], h_available := h_available h, h_verified := h_verified h, h_mpc := mpc'\<rparr>"
    and "worker_inv mpc' (h_wpc h ! t) b' d' t" "master_inv n h'"
      "counts (h_wpc h ! t) d' + taken (h_mpc h) = counts (h_wpc h ! t) (h_tdata h ! t) + taken mpc'"
      "in_hand mpc' + assigned (h_wpc h ! t) b' d' =
        in_hand (h_mpc h) + assigned (h_wpc h ! t) (h_barrier h ! t) (h_tdata h ! t)"
  shows "handoff_inv n segs h'"
  using assms(6-) mpc by (intro handoff_change [OF inv t h']) (auto simp: ac_simps)

lemma master_claimed_step:
  assumes inv: "handoff_inv n segs h" and step: "master_step h = Some h'" and claim: "claimed (h_mpc h) = Some t"
  shows "handoff_inv n segs h'"
proof -
  let ?d = "h_tdata h ! t"
  have mi: "master_inv n h" using inv by (simp add: handoff_inv_def)
  note t = claimed_thread [OF inv claim]
  note fill = master_fills [OF inv t(1)]
  show ?thesis
  proof (cases "h_mpc h")
    case (MBusy pos num u)
    then show ?thesis using step claim mi t
      by (intro fill [where mpc' = "MPos pos num t" and b' = True and d' = "?d\<lparr>td_state := TBUSY\<rparr>"])
        (auto simp: handoff_steps master_inv_def)
  next
    case (MPos pos num u)
    then show ?thesis using step claim mi t
      by (intro fill [where mpc' = "MCount pos num t" and b' = True and d' = "?d\<lparr>td_pos := pos\<rparr>"])
        (auto simp: handoff_steps master_inv_def)
  next
    case (MCount pos num u)
    then show ?thesis using step claim mi t
      by (intro fill [where mpc' = "MRaise pos num t" and b' = True and d' = "?d\<lparr>td_count := num\<rparr>"])
        (auto simp: handoff_steps master_inv_def)
  next
    case (MRaise pos num u)
    then show ?thesis using step claim mi t
      by (intro fill [where mpc' = MNext and b' = False and d' = ?d]) (auto simp: handoff_steps master_inv_def)
  qed (use claim in simp_all)
qed

lemma master_find_step:
  assumes inv: "handoff_inv n segs h" and step: "master_step h = Some h'" and find: "h_mpc h = MFind pos num t"
  shows "handoff_inv n segs h'"
proof -
  have mi: "master_inv n h" and len: "length (h_barrier h) = n" "length (h_tdata h) = n"
    using inv by (simp_all add: handoff_inv_def)
  then have t: "t < n" using find by (simp add: master_inv_def)
  show ?thesis
  proof (cases "td_state (h_tdata h ! t) = TIDLE")
    case True
    have "h_wpc h ! t \<in> {WBarrier, WCount} \<and> h_barrier h ! t"
      using inv t find True by (intro idle_worker [of "h_mpc h" _ _ _ t]) (simp_all add: handoff_inv_def)
    then show ?thesis using step find True mi t
      by (intro master_fills [OF inv t, where mpc' = "MBusy pos num t" and b' = True and d' = "h_tdata h ! t"])
        (auto simp: master_step_def master_inv_def worker_inv_def)
  next
    case False
    have "Suc t mod length (h_barrier h) < length (h_barrier h)"
      using t len by (intro mod_less_divisor) linarith
    then show ?thesis using step find mi t len False
      by (intro handoff_quiet [OF inv, where mpc' = "h_mpc h'" and todo' = "h_todo h'" and a' = "h_available h'"])
        (auto simp: master_step_def master_inv_def simp del: mod_less_divisor)
  qed
qed

lemma master_step_inv:
  assumes inv: "handoff_inv n segs h" and step: "master_step h = Some h'"
    and more: "h_mpc h = MNext \<Longrightarrow> h_todo h \<noteq> []"
  shows "handoff_inv n segs h'"
proof -
  have mi: "master_inv n h" and cnt: "counts_all n h = h_available h + taken (h_mpc h)"
    using inv by (simp_all add: handoff_inv_def)
  note quiet = handoff_quiet [OF inv, where mpc' = "h_mpc h'" and todo' = "h_todo h'" and a' = "h_available h'"]
  show ?thesis
  proof (cases "h_mpc h")
    case MNext
    then show ?thesis using step more mi
      by (intro quiet) (auto simp: master_step_def master_inv_def split: list.splits)
  next
    case (MWait pos num)
    then show ?thesis using step mi by (intro quiet) (auto simp: master_step_def master_inv_def split: if_splits)
  next
    case (MDec pos num)
    moreover have "0 < n" using MDec mi cnt by (intro gr0I) (simp add: master_inv_def counts_all_def)
    ultimately show ?thesis using step mi by (intro quiet) (auto simp: master_step_def master_inv_def)
  next
    case (MFind pos num t)
    then show ?thesis by (rule master_find_step [OF inv step])
  qed (use mi master_claimed_step [OF inv step] in \<open>simp_all add: master_inv_def\<close>)
qed

section \<open>Reachable states\<close>

fun stopping :: "master_pc \<Rightarrow> bool" where
  "stopping (MStop t) = True"
| "stopping (MJoin t) = True"
| "stopping MDone = True"
| "stopping _ = False"

lemma stopping_stays: "handoff_step h h' \<Longrightarrow> stopping (h_mpc h) \<Longrightarrow> stopping (h_mpc h')"
  by (erule handoff_stepE)
    (auto simp: master_step_def worker_step_def goto_def set_td_def set_barrier_def Let_def
      split: master_pc.splits worker_pc.splits if_splits)

lemma handoff_step_inv:
  assumes "handoff_inv n segs h" "handoff_step h h'" "\<not> stopping (h_mpc h')"
  shows "handoff_inv n segs h'"
  using assms(2)
proof (cases rule: handoff_step.cases)
  case master
  then show ?thesis
    using assms(3) by (intro master_step_inv [OF assms(1)]) (auto simp: master_step_def)
next
  case (worker i)
  then show ?thesis using assms(1) worker_step_inv [OF assms(1)] by (simp add: handoff_inv_def)
qed

lemma handoff_reach_inv:
  "handoff_reach h h' \<Longrightarrow> handoff_inv n segs h \<Longrightarrow> \<not> stopping (h_mpc h') \<Longrightarrow> handoff_inv n segs h'"
proof (induction rule: handoff_reach.induct)
  case (step h h' h'')
  then show ?case using stopping_stays handoff_step_inv by blast
qed

lemma idle_thread_exists:
  assumes "handoff_inv n segs h" "h_mpc h = MFind pos num t"
  shows "\<exists>i<n. td_state (h_tdata h ! i) = TIDLE"
proof (rule ccontr)
  assume "\<not> ?thesis"
  then have "counts_all n h \<le> 0"
    unfolding counts_all_def by (intro sum_nonpos) (auto simp: counts_def)
  then show False using assms by (simp add: handoff_inv_def master_inv_def)
qed

lemma run_schedule_reach: "run_schedule sch h = Some h' \<Longrightarrow> handoff_reach h0 h \<Longrightarrow> handoff_reach h0 h'"
proof (induction sch h rule: run_schedule.induct)
  case (2 sch h)
  then show ?case by (auto simp: bind_eq_Some_conv intro: handoff_reach.step handoff_step.master)
next
  case (3 i sch h)
  then obtain y where y: "i < length (h_wpc h)" "worker_step i h = Some y" "run_schedule sch y = Some h'"
    by (auto simp: bind_eq_Some_conv split: if_splits)
  have "handoff_reach h0 y" using 3 y handoff_reach.step handoff_step.worker by blast
  then show ?case using 3 y by blast
qed simp

definition rested :: "nat \<Rightarrow> handoff \<Rightarrow> bool" where
  "rested n h \<longleftrightarrow> h_mpc h = MNext \<and> h_todo h = [] \<and> (\<forall>i<n. h_wpc h ! i = WBarrier \<and> h_barrier h ! i)"

lemma rested_verified: "handoff_inv n segs h \<Longrightarrow> rested n h \<Longrightarrow> mset (h_verified h) = segs"
  by (simp add: handoff_inv_def rested_def assigned_all_def assigned_def)

text \<open>
  C27: Once the threads have settled behind their barriers, the hand-over loses nothing and doubles
  nothing, however the scrubber task and its threads are interleaved: until the task starts to
  stop the threads, every segment of the round is still to be handed over, in the hands of the
  task, assigned to exactly one thread, or verified. The data of a thread is never changed while
  the thread reads it, and the search for an idle thread always has one to find. When all
  segments are handed over and the threads are back behind their barriers, exactly the segments of
  the round have been verified.
\<close>

theorem handover_accounts_for_segments:
  assumes "handoff_reach (settled_handoff n segs) h" "\<not> stopping (h_mpc h)"
  shows "mset (h_todo h) + in_hand (h_mpc h) + assigned_all n h + mset (h_verified h) = mset segs \<and>
    (\<forall>i<n. claimed (h_mpc h) = Some i \<longrightarrow> h_wpc h ! i \<in> {WBarrier, WCount} \<and> h_barrier h ! i) \<and>
    (\<forall>pos num t. h_mpc h = MFind pos num t \<longrightarrow> (\<exists>i<n. td_state (h_tdata h ! i) = TIDLE)) \<and>
    (rested n h \<longrightarrow> mset (h_verified h) = mset segs)"
proof -
  have inv: "handoff_inv n (mset segs) h"
    using handoff_reach_inv [OF assms(1) settled_inv assms(2)] .
  then show ?thesis
    using idle_thread_exists [OF inv] rested_verified [OF inv] claimed_worker
    by (fastforce simp: handoff_inv_def)
qed

theorem handover_accounts_for_segments_witness:
  "\<exists>h. handoff_reach (settled_handoff 2 [(8, 16), (24, 16)]) h \<and> h_verified h = [(8, 16)] \<and>
    mset (h_todo h) + in_hand (h_mpc h) + assigned_all 2 h + mset (h_verified h) = mset [(8, 16), (24, 16)]"
proof -
  let ?sch = "replicate 8 None @ replicate 6 (Some 0)"
  have "map_option (\<lambda>h. (h_verified h, h_mpc h)) (run_schedule ?sch (settled_handoff 2 [(8, 16), (24, 16)]))
      = Some ([(8, 16)], MNext)"
    by code_simp
  then obtain h where h: "run_schedule ?sch (settled_handoff 2 [(8, 16), (24, 16)]) = Some h"
      "h_verified h = [(8, 16)]" "h_mpc h = MNext"
    by auto
  then have reach: "handoff_reach (settled_handoff 2 [(8, 16), (24, 16)]) h"
    using run_schedule_reach handoff_reach.refl by blast
  then show ?thesis
    using handover_accounts_for_segments [OF reach] h by auto
qed

section \<open>Where the hand-over loses a segment\<close>

lemmas run_defs = worker_step_def master_step_def goto_def set_td_def set_barrier_def
  start_handoff_def settled_handoff_def

definition early_claim :: "nat option list" where
  "early_claim = [Some 0, Some 0] @ replicate 5 None @ replicate 8 (Some 0) @ replicate 3 None @
     replicate 3 (Some 0) @ [None, None] @ [Some 0, Some 0] @ [None, None]"

lemma early_claim_runs:
  "\<exists>h. run_schedule early_claim (start_handoff 1 [(pos, num)]) = Some h \<and> h_mpc h = MDone \<and>
    h_verified h = [(0, 0)]"
  by (simp add: early_claim_def run_defs numeral_eq_Suc)

definition early_stop :: "nat option list" where
  "early_stop = replicate 10 None @ [Some 0, Some 0] @ [None, None]"

lemma early_stop_runs:
  "\<exists>h. run_schedule early_stop (settled_handoff 1 [(pos, num)]) = Some h \<and> h_mpc h = MDone \<and>
    h_verified h = []"
  by (simp add: early_stop_def run_defs numeral_eq_Suc)

text \<open>
  C37: The barriers of new threads are open. The task can claim a thread that has reported itself
  idle but has not taken its barrier yet; the thread then passes the barrier, finds itself busy
  before its position and length are set, verifies nothing at sector 0, and sleeps through the
  real hand-over: the round ends and the segment was never verified.
\<close>

theorem first_segment_can_be_lost:
  assumes "(pos, num) \<noteq> (0, 0)"
  shows "\<exists>h. handoff_reach (start_handoff 1 [(pos, num)]) h \<and> h_mpc h = MDone \<and>
    (pos, num) \<notin> set (h_verified h)"
proof -
  obtain h where h: "run_schedule early_claim (start_handoff 1 [(pos, num)]) = Some h" "h_mpc h = MDone"
      "h_verified h = [(0, 0)]"
    using early_claim_runs by blast
  then show ?thesis using assms run_schedule_reach [OF h(1) handoff_reach.refl] by auto
qed

theorem first_segment_can_be_lost_witness:
  "\<exists>h. handoff_reach (start_handoff 1 [(2048, 2048)]) h \<and> h_mpc h = MDone \<and> (2048, 2048) \<notin> set (h_verified h)"
  by (rule first_segment_can_be_lost) simp

text \<open>
  C38: The task stops the threads without waiting for the segments it has handed over. A thread that
  first runs after it was asked to stop leaves its loop before it looks at its data, so that the
  last segment of a round can be lost even when the threads had settled.
\<close>

theorem last_segment_can_be_lost:
  "\<exists>h. handoff_reach (settled_handoff 1 [(pos, num)]) h \<and> h_mpc h = MDone \<and> h_verified h = []"
  using early_stop_runs run_schedule_reach handoff_reach.refl by blast

end
