(* ===== verification/Reader.thy ===== *)
theory Reader
  imports Scrub_Prelude "HOL-Library.Signed_Division"
begin

text \<open>
  The user-level scrubber \<^verbatim>\<open>eval/userlevel/reader.c\<close>, which reads a device through its file
  instead of sending VERIFY commands: \<open>segread\<close>, the sequential and the staggered scrub, \<open>scrubdev\<close>
  and \<open>main\<close>. The definitions carry the prefix \<open>reader_\<close>, since \<^verbatim>\<open>scrub_core.c\<close> has functions
  of the same names.

  The operating system is a parameter: what \<open>lseek\<close>, \<open>posix_memalign\<close>, \<open>read\<close>, \<open>malloc\<close>, \<open>open\<close> and
  \<open>close\<close> answer may depend on the number of calls made before. \<open>getopt_long\<close> is given by the
  options it returns, with their arguments, and the operands that are left. Output that only
  \<open>verbose\<close> asks for is left out. A run that leaves the defined behaviour of C, or aborts, is a
  value of the type \<open>fault\<close>; a loop that never ends has the value \<open>None\<close>.
\<close>

section \<open>Integers\<close>

text \<open>The conversions to the unsigned and the signed 64-bit types and to \<open>int\<close>, which wrap.\<close>

definition to_u64 :: "int \<Rightarrow> int" where "to_u64 x = x mod 2 ^ 64"

definition to_s64 :: "int \<Rightarrow> int" where "to_s64 x = (x + 2 ^ 63) mod 2 ^ 64 - 2 ^ 63"

definition to_s32 :: "int \<Rightarrow> int" where "to_s32 x = (x + 2 ^ 31) mod 2 ^ 32 - 2 ^ 31"

abbreviation (input) LONG_MAX :: int where "LONG_MAX \<equiv> 2 ^ 63 - 1"

lemma to_u64_id [simp]: "0 \<le> x \<Longrightarrow> x < 2 ^ 64 \<Longrightarrow> to_u64 x = x"
  by (simp add: to_u64_def)

lemma to_s64_id [simp]: "- (2 ^ 63) \<le> x \<Longrightarrow> x < 2 ^ 63 \<Longrightarrow> to_s64 x = x"
  by (simp add: to_s64_def)

lemma to_s64_sum: "0 \<le> a \<Longrightarrow> a < 2 ^ 62 \<Longrightarrow> 0 \<le> b \<Longrightarrow> b < 2 ^ 62 \<Longrightarrow> to_s64 (to_s64 a + to_s64 b) = a + b"
  by simp

section \<open>State\<close>

datatype fault = Overrun | Div_by_zero | Abort

datatype message =
    Offset int u8 int | Error_at int | Scrub_failed string int | Scrub_succeeded string int
  | Open_failed string | Initiate_failed string | Close_failed string

record os_env =
  os_pagesize :: int
  os_lseek :: "nat \<Rightarrow> int \<Rightarrow> int \<Rightarrow> int"
  os_lseek_end :: "nat \<Rightarrow> int \<Rightarrow> int"
  os_memalign :: "nat \<Rightarrow> int \<Rightarrow> int"
  os_read :: "nat \<Rightarrow> int \<Rightarrow> int \<Rightarrow> int \<Rightarrow> u8 list option"
  os_malloc :: "nat \<Rightarrow> int \<Rightarrow> u8 list option"
  os_open :: "nat \<Rightarrow> string \<Rightarrow> int"
  os_close :: "nat \<Rightarrow> int \<Rightarrow> int"

text \<open>
  The globals of the program; \<open>r_buf\<close> is the buffer of \<open>scrubdev\<close>. \<open>r_calls\<close> counts the calls to
  the system, \<open>r_reads\<close> lists the reads that succeeded as descriptor, offset and length, and \<open>r_out\<close>
  the messages.
\<close>

record reader =
  r_segment_size :: int
  r_region_size :: int
  r_technique :: int
  r_verbose :: bool
  r_debug :: bool
  r_read_errs :: int
  r_buf :: "u8 list"
  r_calls :: nat
  r_reads :: "(int \<times> int \<times> int) list"
  r_out :: "message list"

definition tick :: "reader \<Rightarrow> reader" where
  "tick s = s\<lparr>r_calls := r_calls s + 1\<rparr>"

definition say :: "message \<Rightarrow> reader \<Rightarrow> reader" where
  "say m s = s\<lparr>r_out := r_out s @ [m]\<rparr>"

definition count_error :: "reader \<Rightarrow> reader" where
  "count_error s = s\<lparr>r_read_errs := to_s32 (r_read_errs s + 1)\<rparr>"

section \<open>Reading a segment\<close>

definition page_base :: "os_env \<Rightarrow> int \<Rightarrow> int" where
  "page_base E pos = to_s64 (to_u64 pos div os_pagesize E * os_pagesize E)"

definition page_offset :: "os_env \<Rightarrow> int \<Rightarrow> int" where
  "page_offset E pos = to_u64 pos mod os_pagesize E"

definition page_round :: "os_env \<Rightarrow> int \<Rightarrow> int" where
  "page_round E len = to_u64 ((to_u64 (len - 1) div os_pagesize E + 1) * os_pagesize E)"

definition copy_out :: "os_env \<Rightarrow> int \<Rightarrow> int \<Rightarrow> int \<Rightarrow> u8 list \<Rightarrow> reader \<Rightarrow> fault + (int \<times> reader)" where
  "copy_out E fd len pos data s =
     (let off = nat (page_offset E pos); n = nat len in
      if off + n \<le> length data \<and> n \<le> length (r_buf s) then
        Inr (int (length data),
          s\<lparr>r_buf := take n (drop off data) @ drop n (r_buf s),
            r_reads := r_reads s @ [(fd, page_base E pos, int (length data))]\<rparr>)
      else Inl Overrun)"

definition reader_segread :: "os_env \<Rightarrow> int \<Rightarrow> int \<Rightarrow> int \<Rightarrow> reader \<Rightarrow> fault + (int \<times> reader)" where
  "reader_segread E fd len pos s =
     (if os_lseek E (r_calls s) fd (page_base E pos) = -1 then Inr (-1, tick s)
      else let s = tick s in
      if os_memalign E (r_calls s) (page_round E len) \<noteq> 0 then Inr (-1, tick s)
      else let s = tick s in
      case os_read E (r_calls s) fd (page_base E pos) (page_round E len) of
        None \<Rightarrow> Inr (-1, count_error (tick s))
      | Some data \<Rightarrow>
          if int (length data) \<noteq> to_s64 (page_round E len) then Inr (-1, count_error (tick s))
          else copy_out E fd len pos data (tick s))"

definition reader_lceil :: "int \<Rightarrow> int \<Rightarrow> fault + int" where
  "reader_lceil whole part =
     (if part = 0 then Inl Div_by_zero
      else if whole smod part = 0 then Inr (to_s64 (whole sdiv part))
      else Inr (to_s64 (1 + whole sdiv part)))"

section \<open>The two scrubs\<close>

text \<open>
  The body that both loops share: it may move the position back, and either the scrub has to be
  given up, or the segment could not be read, or it was read.
\<close>

datatype segment_result = Give_up | Not_read | Bytes_read int

definition read_segment :: "os_env \<Rightarrow> int \<Rightarrow> int \<Rightarrow> int \<Rightarrow> reader \<Rightarrow> fault + (int \<times> segment_result \<times> reader)" where
  "read_segment E fd capacity pos s =
     (let seg = r_segment_size s; last = to_s64 (pos + seg) > capacity;
          whole = last \<and> seg > capacity;
          pos = (if whole then 0 else if last then to_s64 (capacity - seg) else pos) in
      case reader_segread E fd (if whole then to_u64 capacity else to_u64 (seg - 1)) pos s of
        Inl f \<Rightarrow> Inl f
      | Inr (r, s) \<Rightarrow>
          if r < 0 then
            (if whole then Inr (pos, Give_up, s) else Inr (pos, Not_read, say (Error_at pos) s))
          else Inr (pos, Bytes_read r, if r_debug s then say (Offset pos (r_buf s ! 0) r) s else s))"

partial_function (option) reader_seq_loop ::
  "os_env \<Rightarrow> int \<Rightarrow> int \<Rightarrow> int \<Rightarrow> reader \<Rightarrow> (fault + (int \<times> reader)) option" where
  "reader_seq_loop E fd capacity pos s =
     (if pos < capacity then
        (case read_segment E fd capacity pos s of
           Inl f \<Rightarrow> Some (Inl f)
         | Inr (pos, Give_up, s) \<Rightarrow> Some (Inr (-1, s))
         | Inr (pos, Not_read, s) \<Rightarrow> reader_seq_loop E fd capacity pos s
         | Inr (pos, Bytes_read r, s) \<Rightarrow> reader_seq_loop E fd capacity (to_s64 (pos + r)) s)
      else Some (Inr (0, s)))"

definition reader_seqscrub :: "os_env \<Rightarrow> int \<Rightarrow> int \<Rightarrow> reader \<Rightarrow> (fault + (int \<times> reader)) option" where
  "reader_seqscrub E fd capacity s = reader_seq_loop E fd capacity 0 s"

text \<open>The loop over the regions for the \<open>sn\<close>-th segment; the flag says that it gave up.\<close>

function reader_stag_regions ::
  "os_env \<Rightarrow> int \<Rightarrow> int \<Rightarrow> int \<Rightarrow> int \<Rightarrow> int \<Rightarrow> reader \<Rightarrow> fault + (bool \<times> reader)" where
  "reader_stag_regions E fd capacity regnum sn r s =
     (let pos = to_s64 (to_s64 (sn * r_segment_size s) + to_s64 (r * r_region_size s)) in
      if r < regnum then
        if pos > capacity then Inr (False, s)
        else (case read_segment E fd capacity pos s of
            Inl f \<Rightarrow> Inl f
          | Inr (pos, Give_up, s) \<Rightarrow> Inr (True, s)
          | Inr (pos, res, s) \<Rightarrow> reader_stag_regions E fd capacity regnum sn (r + 1) s)
      else Inr (False, s))"
  by pat_completeness auto
termination
  by (relation "measure (\<lambda>(E, fd, capacity, regnum, sn, r, s). nat (regnum - r))") auto

function reader_stag_segments ::
  "os_env \<Rightarrow> int \<Rightarrow> int \<Rightarrow> int \<Rightarrow> int \<Rightarrow> int \<Rightarrow> reader \<Rightarrow> fault + (int \<times> reader)" where
  "reader_stag_segments E fd capacity regnum segnum sn s =
     (if sn < segnum then
        (case reader_stag_regions E fd capacity regnum sn 0 s of
           Inl f \<Rightarrow> Inl f
         | Inr (gave_up, s) \<Rightarrow>
             if gave_up then Inr (-1, s)
             else reader_stag_segments E fd capacity regnum segnum (sn + 1) s)
      else Inr (0, s))"
  by pat_completeness auto
termination
  by (relation "measure (\<lambda>(E, fd, capacity, regnum, segnum, sn, s). nat (segnum - sn))") auto

definition reader_stgscrub :: "os_env \<Rightarrow> int \<Rightarrow> int \<Rightarrow> reader \<Rightarrow> fault + (int \<times> reader)" where
  "reader_stgscrub E fd capacity s =
     (case reader_lceil capacity (r_region_size s) of
        Inl f \<Rightarrow> Inl f
      | Inr regnum \<Rightarrow>
          (case reader_lceil (r_region_size s) (r_segment_size s) of
             Inl f \<Rightarrow> Inl f
           | Inr segnum \<Rightarrow> reader_stag_segments E fd capacity regnum segnum 0 s))"

declare reader_stag_regions.simps [simp del] reader_stag_segments.simps [simp del]

section \<open>A device\<close>

definition then_run :: "(fault + 'a) option \<Rightarrow> ('a \<Rightarrow> (fault + 'b) option) \<Rightarrow> (fault + 'b) option" where
  "then_run m f = (case m of None \<Rightarrow> None | Some (Inl e) \<Rightarrow> Some (Inl e) | Some (Inr a) \<Rightarrow> f a)"

definition report_scrub :: "string \<Rightarrow> int \<Rightarrow> reader \<Rightarrow> reader" where
  "report_scrub what r s =
     say (if r < 0 then Scrub_failed what (r_read_errs s) else Scrub_succeeded what (r_read_errs s)) s"

definition SEQLSCRUB :: int where "SEQLSCRUB = 1"
definition STAGSCRUB :: int where "STAGSCRUB = 2"
definition BOTHSCRUB :: int where "BOTHSCRUB = 3"

definition sequential_stage :: "os_env \<Rightarrow> int \<Rightarrow> int \<Rightarrow> reader \<Rightarrow> (fault + reader) option" where
  "sequential_stage E fd capacity s =
     (if r_technique s = SEQLSCRUB \<or> r_technique s = BOTHSCRUB then
        then_run (reader_seqscrub E fd capacity (s\<lparr>r_read_errs := 0\<rparr>))
          (\<lambda>(r, s). Some (Inr (report_scrub ''Sequential'' r s)))
      else Some (Inr s))"

definition staggered_stage :: "os_env \<Rightarrow> int \<Rightarrow> int \<Rightarrow> reader \<Rightarrow> (fault + reader) option" where
  "staggered_stage E fd capacity s =
     (if r_technique s = STAGSCRUB \<or> r_technique s = BOTHSCRUB then
        then_run (Some (reader_stgscrub E fd capacity (s\<lparr>r_read_errs := 0\<rparr>)))
          (\<lambda>(r, s). Some (Inr (report_scrub ''Staggered'' r s)))
      else Some (Inr s))"

definition reader_scrubdev :: "os_env \<Rightarrow> int \<Rightarrow> reader \<Rightarrow> (fault + (int \<times> reader)) option" where
  "reader_scrubdev E fd s =
     (case os_malloc E (r_calls s) (to_u64 (r_segment_size s)) of
        None \<Rightarrow> Some (Inr (-1, tick s))
      | Some b \<Rightarrow>
          (let s = (tick s)\<lparr>r_buf := b\<rparr>; capacity = os_lseek_end E (r_calls s) fd in
           then_run (sequential_stage E fd capacity (tick s)) (\<lambda>s.
           then_run (staggered_stage E fd capacity s) (\<lambda>s. Some (Inr (0, s))))))"

section \<open>The program\<close>

text \<open>\<open>atol\<close> of the C library: blanks, a sign, decimal digits; out of range it saturates.\<close>

definition is_blank :: "char \<Rightarrow> bool" where
  "is_blank c \<longleftrightarrow> c = CHR '' '' \<or> (9 \<le> (of_char c :: nat) \<and> (of_char c :: nat) \<le> 13)"

definition is_digit :: "char \<Rightarrow> bool" where
  "is_digit c \<longleftrightarrow> 48 \<le> (of_char c :: nat) \<and> (of_char c :: nat) \<le> 57"

definition digits_value :: "string \<Rightarrow> int" where
  "digits_value cs = foldl (\<lambda>v c. 10 * v + (of_char c - 48)) 0 (takeWhile is_digit cs)"

definition saturate :: "int \<Rightarrow> int" where
  "saturate v = max (- (2 ^ 63)) (min LONG_MAX v)"

definition atol :: "string \<Rightarrow> int" where
  "atol arg =
     (case dropWhile is_blank arg of
        [] \<Rightarrow> 0
      | c # cs \<Rightarrow>
          if c = CHR ''-'' then saturate (- digits_value cs)
          else if c = CHR ''+'' then saturate (digits_value cs)
          else saturate (digits_value (c # cs)))"

definition size_option :: "string \<Rightarrow> int" where
  "size_option arg =
     (let v = atol arg in to_s64 ((if v \<le> 0 \<or> v = LONG_MAX then 0 else v) * 1024))"

definition technique_option :: "string \<Rightarrow> int \<Rightarrow> int" where
  "technique_option arg t =
     (if arg = ''SEQL'' \<or> arg = ''0'' then SEQLSCRUB
      else if arg = ''STAG'' \<or> arg = ''1'' then STAGSCRUB
      else if arg = ''BOTH'' \<or> arg = ''2'' then BOTHSCRUB
      else t)"

text \<open>The loop over the options; \<open>Some code\<close> when \<open>print_usage\<close> has left the program.\<close>

fun reader_options :: "(char \<times> string) list \<Rightarrow> reader \<Rightarrow> fault + (int option \<times> reader)" where
  "reader_options [] s = Inr (None, s)"
| "reader_options ((c, arg) # opts) s =
     (if c = CHR ''h'' then Inr (Some 0, s)
      else if c = CHR ''r'' then reader_options opts (s\<lparr>r_region_size := size_option arg\<rparr>)
      else if c = CHR ''s'' then reader_options opts (s\<lparr>r_segment_size := size_option arg\<rparr>)
      else if c = CHR ''t'' then
        reader_options opts (s\<lparr>r_technique := technique_option arg (r_technique s)\<rparr>)
      else if c = CHR ''d'' then reader_options opts (s\<lparr>r_debug := True\<rparr>)
      else if c = CHR ''v'' then reader_options opts (s\<lparr>r_verbose := True\<rparr>)
      else if c = CHR ''?'' then Inr (Some 1, s)
      else Inl Abort)"

definition reader_defaults :: "reader \<Rightarrow> reader" where
  "reader_defaults s =
     s\<lparr>r_technique := (if r_technique s = 0 then BOTHSCRUB else r_technique s),
       r_segment_size := (if r_segment_size s = 0 then 2 * 1024 * 1024 else r_segment_size s),
       r_region_size := (if r_region_size s = 0 then 100 * 1024 * 1024 else r_region_size s)\<rparr>"

definition reader_device :: "os_env \<Rightarrow> string \<Rightarrow> reader \<Rightarrow> (fault + reader) option" where
  "reader_device E arg s =
     (if length arg \<ge> 256 then Some (Inl Overrun)
      else let fd = os_open E (r_calls s) arg; s = tick s in
      if fd = -1 then Some (Inr (say (Open_failed arg) s))
      else then_run (reader_scrubdev E fd s) (\<lambda>(r, s).
        let s = (if r = -1 then say (Initiate_failed arg) s else s) in
        Some (Inr (if os_close E (r_calls s) fd = -1 then say (Close_failed arg) (tick s) else tick s))))"

fun reader_devices :: "os_env \<Rightarrow> string list \<Rightarrow> reader \<Rightarrow> (fault + reader) option" where
  "reader_devices E [] s = Some (Inr s)"
| "reader_devices E (arg # args) s = then_run (reader_device E arg s) (reader_devices E args)"

definition reader_start :: reader where
  "reader_start = \<lparr>r_segment_size = 0, r_region_size = 0, r_technique = 0, r_verbose = False,
     r_debug = False, r_read_errs = 0, r_buf = [], r_calls = 0, r_reads = [], r_out = []\<rparr>"

definition reader_main :: "os_env \<Rightarrow> (char \<times> string) list \<Rightarrow> string list \<Rightarrow> (fault + (int \<times> reader)) option" where
  "reader_main E opts devs =
     (case reader_options opts reader_start of
        Inl f \<Rightarrow> Some (Inl f)
      | Inr (Some code, s) \<Rightarrow> Some (Inr (code, s))
      | Inr (None, s) \<Rightarrow> then_run (reader_devices E devs (reader_defaults s)) (\<lambda>s. Some (Inr (0, s))))"

section \<open>Reading at a page boundary\<close>

text \<open>
  The segment size is a multiple of the page size and the device is at least that long. The
  second predicate is a device that never fails inside its capacity.
\<close>

definition page_segments :: "os_env \<Rightarrow> int \<Rightarrow> int \<Rightarrow> bool" where
  "page_segments E capacity seg \<longleftrightarrow>
     2 \<le> os_pagesize E \<and> os_pagesize E dvd seg \<and> 0 < seg \<and> seg \<le> capacity \<and> capacity < 2 ^ 62"

definition healthy :: "os_env \<Rightarrow> int \<Rightarrow> int \<Rightarrow> bool" where
  "healthy E fd capacity \<longleftrightarrow>
     (\<forall>n pos. 0 \<le> pos \<longrightarrow> os_lseek E n fd pos \<noteq> -1) \<and> (\<forall>n len. os_memalign E n len = 0) \<and>
     (\<forall>n pos len. 0 \<le> pos \<longrightarrow> 0 \<le> len \<longrightarrow> pos + len \<le> capacity \<longrightarrow>
        (\<exists>data. os_read E n fd pos len = Some data \<and> int (length data) = len))"

definition same_settings :: "reader \<Rightarrow> reader \<Rightarrow> bool" where
  "same_settings s s' \<longleftrightarrow> r_segment_size s' = r_segment_size s \<and> r_region_size s' = r_region_size s \<and>
     r_technique s' = r_technique s \<and> r_debug s' = r_debug s \<and> length (r_buf s') = length (r_buf s)"

lemma same_settings_refl [simp]: "same_settings s s"
  by (simp add: same_settings_def)

lemma same_settings_trans: "same_settings s s' \<Longrightarrow> same_settings s' s'' \<Longrightarrow> same_settings s s''"
  by (simp add: same_settings_def)

lemma page_segments_bounds:
  assumes "page_segments E capacity seg"
  shows "0 < os_pagesize E" "os_pagesize E \<le> seg" "seg < 2 ^ 62" "2 \<le> seg"
proof -
  show "os_pagesize E \<le> seg" using assms zdvd_imp_le by (auto simp: page_segments_def)
  then show "0 < os_pagesize E" "seg < 2 ^ 62" "2 \<le> seg" using assms by (auto simp: page_segments_def)
qed

lemma page_base_bounds:
  assumes "0 < os_pagesize E" "0 \<le> pos" "pos < 2 ^ 63"
  shows "page_base E pos = pos - pos mod os_pagesize E" "page_offset E pos = pos mod os_pagesize E"
proof -
  have mod: "0 \<le> pos mod os_pagesize E" "pos mod os_pagesize E \<le> pos"
    using assms by (auto simp: zmod_le_nonneg_dividend)
  have "to_s64 (pos - pos mod os_pagesize E) = pos - pos mod os_pagesize E"
    by (rule to_s64_id) (use mod assms in linarith)+
  moreover have "pos div os_pagesize E * os_pagesize E = pos - pos mod os_pagesize E"
    by (simp add: minus_mod_eq_div_mult)
  ultimately show "page_base E pos = pos - pos mod os_pagesize E" "page_offset E pos = pos mod os_pagesize E"
    using assms by (auto simp: page_base_def page_offset_def)
qed

lemma page_round_segment:
  assumes "page_segments E capacity seg"
  shows "page_round E (to_u64 (seg - 1)) = seg"
proof -
  let ?p = "os_pagesize E"
  note b = page_segments_bounds [OF assms]
  obtain k where k: "seg = ?p * k" using assms by (auto simp: page_segments_def)
  have "seg - 2 = (?p - 2) + ?p * (k - 1)" using k by (simp add: algebra_simps)
  then have "(seg - 2) div ?p = (k - 1) + (?p - 2) div ?p"
    using b(1) by (simp only:) (rule div_mult_self2, simp)
  also have "(?p - 2) div ?p = 0"
    by (rule div_pos_pos_trivial) (use assms in \<open>auto simp: page_segments_def\<close>)
  finally have "((seg - 2) div ?p + 1) * ?p = seg" unfolding k by (simp add: algebra_simps)
  then show ?thesis using b by (simp add: page_round_def)
qed

lemma length_overwrite:
  "off + n \<le> length xs \<Longrightarrow> n \<le> length ys \<Longrightarrow> length (take n (drop off xs) @ drop n ys) = length ys"
  by simp

lemma segread_outcome:
  assumes dev: "0 \<le> page_base E pos" "page_base E pos + page_round E len \<le> capacity"
    and len: "0 \<le> page_round E len" "to_s64 (page_round E len) = page_round E len"
  obtains (failed) s' where "reader_segread E fd len pos s = Inr (-1, s')"
      "same_settings s s'" "r_reads s' = r_reads s" "r_out s' = r_out s" "\<not> healthy E fd capacity"
  | (read) data where "os_read E (r_calls (tick (tick s))) fd (page_base E pos) (page_round E len) = Some data"
      "int (length data) = page_round E len"
      "reader_segread E fd len pos s = copy_out E fd len pos data (tick (tick (tick s)))"
proof (cases "os_lseek E (r_calls s) fd (page_base E pos) = -1")
  case True
  then show thesis
    using dev by (intro failed [of "tick s"]) (auto simp: reader_segread_def same_settings_def tick_def healthy_def)
next
  case seek: False
  show thesis
  proof (cases "os_memalign E (r_calls (tick s)) (page_round E len) = 0")
    case False
    then show thesis
      using seek by (intro failed [of "tick (tick s)"])
        (auto simp: reader_segread_def same_settings_def tick_def healthy_def Let_def)
  next
    case mem: True
    let ?data = "os_read E (r_calls (tick (tick s))) fd (page_base E pos) (page_round E len)"
    show thesis
    proof (cases "\<exists>data. ?data = Some data \<and> int (length data) = page_round E len")
      case True
      then obtain data where data: "?data = Some data" "int (length data) = page_round E len" by blast
      then show thesis
        by (rule read) (use seek mem len data in \<open>simp add: reader_segread_def Let_def\<close>)
    next
      case False
      then have "reader_segread E fd len pos s = Inr (-1, count_error (tick (tick (tick s))))"
        using seek mem len by (auto simp: reader_segread_def Let_def split: option.splits)
      moreover have "\<not> healthy E fd capacity"
        using False dev len(1) unfolding healthy_def by blast
      ultimately show thesis
        by (intro failed [of "count_error (tick (tick (tick s)))"])
          (auto simp: same_settings_def tick_def count_error_def)
    qed
  qed
qed

text \<open>A segment at a position of the device either fails or was read whole, from the page below.\<close>

lemma segread_cases:
  assumes geo: "page_segments E capacity seg" and pos: "0 \<le> pos" "pos + seg \<le> capacity"
    and buf: "int (length (r_buf s)) = seg"
  obtains (failed) s' where "reader_segread E fd (to_u64 (seg - 1)) pos s = Inr (-1, s')"
      "same_settings s s'" "r_reads s' = r_reads s" "r_out s' = r_out s" "\<not> healthy E fd capacity"
  | (overrun) "reader_segread E fd (to_u64 (seg - 1)) pos s = Inl Overrun" "2 \<le> pos mod os_pagesize E"
  | (read) n data s' where "reader_segread E fd (to_u64 (seg - 1)) pos s = Inr (seg, s')"
      "pos mod os_pagesize E < 2" "same_settings s s'" "r_reads s' = r_reads s @ [(fd, page_base E pos, seg)]"
      "os_read E n fd (page_base E pos) seg = Some data" "int (length data) = seg"
      "r_out s' = r_out s" "r_read_errs s' = r_read_errs s"
proof -
  note b = page_segments_bounds [OF geo]
  have p63: "pos < 2 ^ 63" using geo pos b by (auto simp: page_segments_def)
  note base = page_base_bounds [OF b(1) pos(1) p63] and round = page_round_segment [OF geo]
  have off: "0 \<le> pos mod os_pagesize E" using b by simp
  have in_dev: "0 \<le> page_base E pos" "page_base E pos + seg \<le> capacity"
    using base off pos b(1) zmod_le_nonneg_dividend [OF pos(1)] by (auto, linarith)
  have seg1: "nat (to_u64 (seg - 1)) = nat (seg - 1)" "to_s64 seg = seg" using b by auto
  have dev: "page_base E pos + page_round E (to_u64 (seg - 1)) \<le> capacity"
      "0 \<le> page_round E (to_u64 (seg - 1))"
      "to_s64 (page_round E (to_u64 (seg - 1))) = page_round E (to_u64 (seg - 1))"
    unfolding round using in_dev seg1(2) b by auto
  show thesis
  proof (cases rule: segread_outcome [OF in_dev(1) dev, of fd s])
    case (1 s')
    then show ?thesis by (rule failed)
  next
    case (2 data)
    note good = 2 [unfolded round]
    have len: "length data = nat seg" "length (r_buf s) = nat seg" using good(2) buf by auto
    show ?thesis
    proof (cases "2 \<le> pos mod os_pagesize E")
      case True
      then have "copy_out E fd (to_u64 (seg - 1)) pos data (tick (tick (tick s))) = Inl Overrun"
        using len b base by (auto simp: copy_out_def Let_def seg1)
      then show ?thesis using overrun good True by simp
    next
      case False
      then have fits: "nat (page_offset E pos) + nat (seg - 1) \<le> length data"
        using len b base off by auto
      let ?s = "(tick (tick (tick s)))\<lparr>r_buf := take (nat (seg - 1)) (drop (nat (page_offset E pos)) data) @
        drop (nat (seg - 1)) (r_buf s), r_reads := r_reads s @ [(fd, page_base E pos, seg)]\<rparr>"
      have le: "nat (seg - 1) \<le> length (r_buf s)" using len b by simp
      then have "copy_out E fd (to_u64 (seg - 1)) pos data (tick (tick (tick s))) = Inr (seg, ?s)"
        using good(2) fits by (simp only: copy_out_def Let_def seg1 tick_def) simp
      then have res: "reader_segread E fd (to_u64 (seg - 1)) pos s = Inr (seg, ?s)"
        using good(3) by (rule trans [rotated])
      have same: "same_settings s ?s" using length_overwrite [OF fits le] by (simp add: same_settings_def tick_def)
      show ?thesis
        by (rule read [OF res _ same _ good(1,2)]) (use False in \<open>auto simp: tick_def\<close>)
    qed
  qed
qed

lemma read_segment_cases:
  assumes geo: "page_segments E capacity seg" and pos: "0 \<le> pos" "pos \<le> capacity"
    and s: "r_segment_size s = seg" "int (length (r_buf s)) = seg"
  obtains (failed) s' where
      "read_segment E fd capacity pos s = Inr (min pos (capacity - seg), Not_read, s')"
      "same_settings s s'" "r_reads s' = r_reads s" "\<not> healthy E fd capacity"
  | (overrun) "read_segment E fd capacity pos s = Inl Overrun"
      "2 \<le> min pos (capacity - seg) mod os_pagesize E"
  | (read) n data s' where
      "read_segment E fd capacity pos s = Inr (min pos (capacity - seg), Bytes_read seg, s')"
      "min pos (capacity - seg) mod os_pagesize E < 2" "same_settings s s'"
      "r_reads s' = r_reads s @ [(fd, page_base E (min pos (capacity - seg)), seg)]"
      "os_read E n fd (page_base E (min pos (capacity - seg))) seg = Some data" "int (length data) = seg"
      "r_debug s \<or> r_out s' = r_out s" "r_read_errs s' = r_read_errs s"
proof -
  note b = page_segments_bounds [OF geo]
  have cap: "seg \<le> capacity" "capacity < 2 ^ 62" using geo by (auto simp: page_segments_def)
  let ?pos = "min pos (capacity - seg)"
  have p: "0 \<le> ?pos" "?pos + seg \<le> capacity" using pos cap by auto
  have sel: "(if capacity < to_s64 (pos + seg) then to_s64 (capacity - seg) else pos) = ?pos" "\<not> capacity < seg"
    using pos b cap by auto
  have at: "read_segment E fd capacity pos s =
      (case reader_segread E fd (to_u64 (seg - 1)) ?pos s of
         Inl f \<Rightarrow> Inl f
       | Inr (r, s) \<Rightarrow> if r < 0 then Inr (?pos, Not_read, say (Error_at ?pos) s)
           else Inr (?pos, Bytes_read r, if r_debug s then say (Offset ?pos (r_buf s ! 0) r) s else s))"
    by (simp only: read_segment_def Let_def s(1) sel simp_thms if_False)
  show thesis
  proof (cases rule: segread_cases [OF geo p s(2), of fd])
    case (1 s')
    then show ?thesis using failed [of "say (Error_at ?pos) s'"]
      by (auto simp: at same_settings_def say_def)
  next
    case 2
    then show ?thesis using overrun by (auto simp: at)
  next
    case (3 n data s')
    let ?s = "if r_debug s' then say (Offset ?pos (r_buf s' ! 0) seg) s' else s'"
    have "read_segment E fd capacity pos s = Inr (?pos, Bytes_read seg, ?s)" using 3(1) b by (simp add: at)
    then show ?thesis
      by (rule read [OF _ 3(2) _ _ 3(5,6)]) (use 3 in \<open>auto simp: same_settings_def say_def\<close>)
  qed
qed

section \<open>The sequential scrub\<close>

text \<open>The offsets a sequential scrub reads: one segment after the other, the last one moved back.\<close>

definition sequential_plan :: "int \<Rightarrow> int \<Rightarrow> int list" where
  "sequential_plan capacity seg = map (\<lambda>k. min (int k * seg) (capacity - seg)) [0..<nat ((capacity + seg - 1) div seg)]"

definition plan_reads :: "int \<Rightarrow> int \<Rightarrow> int list \<Rightarrow> (int \<times> int \<times> int) list" where
  "plan_reads fd seg plan = map (\<lambda>pos. (fd, pos, seg)) plan"

lemma page_base_aligned:
  "0 < os_pagesize E \<Longrightarrow> 0 \<le> pos \<Longrightarrow> pos < 2 ^ 63 \<Longrightarrow> os_pagesize E dvd pos \<Longrightarrow> page_base E pos = pos"
  using page_base_bounds [of E pos] by (simp add: dvd_imp_mod_0)

lemma ceil_div_le:
  assumes "0 < seg" shows "nat ((c + seg - 1) div seg) \<le> j \<longleftrightarrow> c \<le> int j * seg"
proof -
  define q where "q = (c + seg - 1) div seg"
  have q: "q * seg \<le> c + seg - 1" "c \<le> q * seg"
    using div_mult_mod_eq [of "c + seg - 1" seg] pos_mod_bound [OF assms, of "c + seg - 1"]
      pos_mod_sign [OF assms, of "c + seg - 1"] unfolding q_def by linarith+
  have "q \<le> int j \<longleftrightarrow> c \<le> int j * seg"
  proof
    assume "q \<le> int j"
    then have "q * seg \<le> int j * seg" using assms by (simp add: mult_right_mono)
    then show "c \<le> int j * seg" using q by linarith
  next
    assume "c \<le> int j * seg"
    then have "q * seg < (int j + 1) * seg" using q by (simp add: algebra_simps)
    then show "q \<le> int j" using assms by (simp add: mult_less_cancel_right)
  qed
  then show ?thesis by (simp add: nat_le_iff q_def)
qed

text \<open>What a read of the device leaves behind: one more entry in the list, no error, no message.\<close>

definition clean_reads :: "int \<Rightarrow> int \<Rightarrow> int list \<Rightarrow> reader \<Rightarrow> reader \<Rightarrow> bool" where
  "clean_reads fd seg plan s s' \<longleftrightarrow> same_settings s s' \<and> r_read_errs s' = r_read_errs s \<and>
     (r_debug s \<or> r_out s' = r_out s) \<and> r_reads s' = r_reads s @ plan_reads fd seg plan"

lemma clean_reads_Nil [simp]: "clean_reads fd seg [] s s"
  by (simp add: clean_reads_def plan_reads_def)

lemma clean_reads_append:
  "clean_reads fd seg ps s s' \<Longrightarrow> clean_reads fd seg qs s' s'' \<Longrightarrow> clean_reads fd seg (ps @ qs) s s''"
  by (auto simp: clean_reads_def plan_reads_def same_settings_def)

lemma clean_reads_Cons:
  "clean_reads fd seg [pos] s s' \<Longrightarrow> clean_reads fd seg ps s' s'' \<Longrightarrow> clean_reads fd seg (pos # ps) s s''"
  using clean_reads_append [of fd seg "[pos]" s s' ps s''] by simp

lemma clean_reads_settings:
  "clean_reads fd seg ps s s' \<Longrightarrow> r_segment_size s' = r_segment_size s \<and> r_region_size s' = r_region_size s \<and>
     length (r_buf s') = length (r_buf s)"
  by (simp add: clean_reads_def same_settings_def)

lemma healthy_read_segment:
  assumes geo: "page_segments E capacity seg" and ok: "healthy E fd capacity"
    and pos: "0 \<le> pos" "pos \<le> capacity" and s: "r_segment_size s = seg" "int (length (r_buf s)) = seg"
    and aligned: "os_pagesize E dvd min pos (capacity - seg)"
  shows "\<exists>s'. read_segment E fd capacity pos s = Inr (min pos (capacity - seg), Bytes_read seg, s') \<and>
    clean_reads fd seg [min pos (capacity - seg)] s s'"
proof (cases rule: read_segment_cases [OF geo pos s, of fd])
  case 1
  then show ?thesis using ok by simp
next
  case 2
  then show ?thesis using aligned by (simp add: dvd_imp_mod_0)
next
  case (3 n data s')
  have "page_base E (min pos (capacity - seg)) = min pos (capacity - seg)"
    by (rule page_base_aligned) (use page_segments_bounds [OF geo] geo pos aligned in \<open>auto simp: page_segments_def\<close>)
  then show ?thesis using 3 by (simp add: clean_reads_def plan_reads_def)
qed

lemma seq_loop_step:
  assumes geo: "page_segments E capacity seg" and ok: "healthy E fd capacity"
    and pos: "0 \<le> pos" "pos + seg \<le> capacity" "os_pagesize E dvd pos"
    and s: "r_segment_size s = seg" "int (length (r_buf s)) = seg"
  shows "\<exists>s'. reader_seq_loop E fd capacity pos s = reader_seq_loop E fd capacity (pos + seg) s' \<and>
    clean_reads fd seg [pos] s s'"
proof -
  note b = page_segments_bounds [OF geo]
  have min: "min pos (capacity - seg) = pos" using pos by simp
  obtain s' where "read_segment E fd capacity pos s = Inr (pos, Bytes_read seg, s')"
      "clean_reads fd seg [pos] s s'"
    using healthy_read_segment [OF geo ok pos(1) _ s] pos b unfolding min by auto
  moreover have "to_s64 (pos + seg) = pos + seg"
    using pos geo by (auto simp: page_segments_def)
  ultimately show ?thesis
    using pos b by (subst reader_seq_loop.simps) auto
qed

lemma seq_loop_last:
  assumes geo: "page_segments E capacity seg" and ok: "healthy E fd capacity"
    and pos: "0 \<le> pos" "pos < capacity" "capacity < pos + seg"
    and s: "r_segment_size s = seg" "int (length (r_buf s)) = seg"
  shows "os_pagesize E dvd capacity \<Longrightarrow>
      \<exists>s'. reader_seq_loop E fd capacity pos s = Some (Inr (0, s')) \<and> clean_reads fd seg [capacity - seg] s s'"
    and "2 \<le> capacity mod os_pagesize E \<Longrightarrow> reader_seq_loop E fd capacity pos s = Some (Inl Overrun)"
proof -
  have min: "min pos (capacity - seg) = capacity - seg" using pos by simp
  have seg: "os_pagesize E dvd seg" using geo by (simp add: page_segments_def)
  have "pos \<le> capacity" using pos by simp
  note step = healthy_read_segment [OF geo ok pos(1) this s] read_segment_cases [OF geo pos(1) this s, of fd]
  {
    assume "os_pagesize E dvd capacity"
    then obtain s' where "read_segment E fd capacity pos s = Inr (capacity - seg, Bytes_read seg, s')"
        "clean_reads fd seg [capacity - seg] s s'"
      using step(1) seg unfolding min by auto
    moreover have "to_s64 (capacity - seg + seg) = capacity"
      using geo by (auto simp: page_segments_def)
    ultimately show "\<exists>s'. reader_seq_loop E fd capacity pos s = Some (Inr (0, s')) \<and>
        clean_reads fd seg [capacity - seg] s s'"
      using pos by (subst reader_seq_loop.simps) (auto simp: reader_seq_loop.simps [of E fd capacity capacity])
  next
    assume "2 \<le> capacity mod os_pagesize E"
    moreover have "(capacity - seg) mod os_pagesize E = capacity mod os_pagesize E"
      using seg by (metis dvd_imp_mod_0 diff_zero mod_diff_right_eq)
    ultimately have "read_segment E fd capacity pos s = Inl Overrun"
      by (cases rule: step(2)) (use ok in \<open>auto simp: min\<close>)
    then show "reader_seq_loop E fd capacity pos s = Some (Inl Overrun)"
      using pos by (subst reader_seq_loop.simps) simp
  }
qed

lemma seq_loop_reads:
  assumes geo: "page_segments E capacity seg" and ok: "healthy E fd capacity" and cap: "os_pagesize E dvd capacity"
  defines "n \<equiv> nat ((capacity + seg - 1) div seg)"
  shows "r_segment_size s = seg \<Longrightarrow> int (length (r_buf s)) = seg \<Longrightarrow>
    \<exists>s'. reader_seq_loop E fd capacity (int j * seg) s = Some (Inr (0, s')) \<and>
      clean_reads fd seg (map (\<lambda>k. min (int k * seg) (capacity - seg)) [j..<n]) s s'"
proof (induction "n - j" arbitrary: j s)
  case 0
  then have "capacity \<le> int j * seg"
    using ceil_div_le [of seg capacity j] geo by (simp add: n_def page_segments_def)
  then show ?case using 0 by (subst reader_seq_loop.simps) simp
next
  case (Suc m)
  have seg: "0 < seg" "os_pagesize E dvd seg" using geo by (auto simp: page_segments_def)
  have j: "j < n" using Suc.hyps(2) by simp
  then have lt: "int j * seg < capacity" using ceil_div_le [OF seg(1), of capacity j] by (simp add: n_def)
  have dvd: "os_pagesize E dvd int j * seg" and nn: "0 \<le> int j * seg" using seg by auto
  have upt: "[j..<n] = j # [Suc j..<n]" using j by (rule upt_conv_Cons)
  show ?case
  proof (cases "int j * seg + seg \<le> capacity")
    case True
    then obtain s1 where s1: "reader_seq_loop E fd capacity (int j * seg) s = reader_seq_loop E fd capacity (int (Suc j) * seg) s1"
        "clean_reads fd seg [int j * seg] s s1"
      using seq_loop_step [OF geo ok nn True dvd Suc.prems] by (auto simp: algebra_simps)
    have m: "m = n - Suc j" using Suc.hyps(2) by simp
    obtain s2 where "reader_seq_loop E fd capacity (int (Suc j) * seg) s1 = Some (Inr (0, s2))"
        "clean_reads fd seg (map (\<lambda>k. min (int k * seg) (capacity - seg)) [Suc j..<n]) s1 s2"
      using Suc.hyps(1) [OF m, of s1] Suc.prems clean_reads_settings [OF s1(2)] by auto
    then show ?thesis using s1 True clean_reads_Cons [OF s1(2)] by (auto simp: upt)
  next
    case False
    then have "capacity \<le> int (Suc j) * seg" by (simp add: algebra_simps)
    then have "n \<le> Suc j" using ceil_div_le [OF seg(1), of capacity "Suc j"] by (simp add: n_def)
    then have "[Suc j..<n] = []" by simp
    then show ?thesis
      using seq_loop_last(1) [OF geo ok nn lt _ Suc.prems cap] False by (auto simp: upt min_def)
  qed
qed

lemma whole_seqscrub:
  assumes "page_segments E capacity seg" "healthy E fd capacity" "os_pagesize E dvd capacity"
    and "r_segment_size s = seg" "int (length (r_buf s)) = seg"
  shows "\<exists>s'. reader_seqscrub E fd capacity s = Some (Inr (0, s')) \<and>
    clean_reads fd seg (sequential_plan capacity seg) s s'"
  using seq_loop_reads [OF assms(1-5), of 0] by (simp add: reader_seqscrub_def sequential_plan_def)

lemma seq_loop_overruns:
  assumes geo: "page_segments E capacity seg" and ok: "healthy E fd capacity"
    and cap: "2 \<le> capacity mod os_pagesize E"
  shows "r_segment_size s = seg \<Longrightarrow> int (length (r_buf s)) = seg \<Longrightarrow> int j * seg < capacity \<Longrightarrow>
    reader_seq_loop E fd capacity (int j * seg) s = Some (Inl Overrun)"
proof (induction "nat (capacity - int j * seg)" arbitrary: j s rule: less_induct)
  case less
  have seg: "0 < seg" "os_pagesize E dvd seg" using geo by (auto simp: page_segments_def)
  have dvd: "os_pagesize E dvd int k * seg" and nn: "0 \<le> int k * seg" for k using seg by auto
  show ?case
  proof (cases "int j * seg + seg \<le> capacity")
    case True
    then obtain s1 where s1: "reader_seq_loop E fd capacity (int j * seg) s = reader_seq_loop E fd capacity (int (Suc j) * seg) s1"
        "clean_reads fd seg [int j * seg] s s1"
      using seq_loop_step [OF geo ok nn True dvd less.prems(1,2)] by (auto simp: algebra_simps)
    have "capacity \<noteq> int (Suc j) * seg" using dvd [of "Suc j"] cap by (auto simp: dvd_imp_mod_0)
    then have "int (Suc j) * seg < capacity" using True by (simp add: algebra_simps)
    then show ?thesis
      using s1(1) less.hyps [of "Suc j" s1] clean_reads_settings [OF s1(2)] less.prems seg
      by (simp add: algebra_simps)
  next
    case False
    then show ?thesis using seq_loop_last(2) [OF geo ok nn less.prems(3) _ less.prems(1,2) cap] by simp
  qed
qed

text \<open>A byte that no read covers keeps the loop from ever passing it.\<close>

lemma seq_loop_stuck:
  assumes geo: "page_segments E capacity seg" and cap: "os_pagesize E dvd capacity"
    and x: "x < capacity"
    and bad: "\<And>n pos data. os_read E n fd pos seg = Some data \<Longrightarrow> int (length data) = seg \<Longrightarrow> pos \<le> x \<Longrightarrow> pos + seg \<le> x"
  shows "reader_seq_loop E' fd' capacity' pos s = Some y \<Longrightarrow>
    E' = E \<and> fd' = fd \<and> capacity' = capacity \<and> 0 \<le> pos \<and> pos \<le> x \<and> os_pagesize E dvd pos \<and>
    r_segment_size s = seg \<and> int (length (r_buf s)) = seg \<longrightarrow> False"
proof (erule reader_seq_loop.raw_induct [rotated], intro impI)
  fix loop E' fd' capacity' pos s y
  assume IH: "\<And>E' fd' capacity' pos s y. loop E' fd' capacity' pos s = Some y \<Longrightarrow>
      E' = E \<and> fd' = fd \<and> capacity' = capacity \<and> 0 \<le> pos \<and> pos \<le> x \<and> os_pagesize E dvd pos \<and>
      r_segment_size s = seg \<and> int (length (r_buf s)) = seg \<longrightarrow> False"
    and body: "(if pos < capacity' then
        (case read_segment E' fd' capacity' pos s of
           Inl f \<Rightarrow> Some (Inl f)
         | Inr (pos, Give_up, s) \<Rightarrow> Some (Inr (-1, s))
         | Inr (pos, Not_read, s) \<Rightarrow> loop E' fd' capacity' pos s
         | Inr (pos, Bytes_read r, s) \<Rightarrow> loop E' fd' capacity' (to_s64 (pos + r)) s)
      else Some (Inr (0, s))) = Some y"
    and at: "E' = E \<and> fd' = fd \<and> capacity' = capacity \<and> 0 \<le> pos \<and> pos \<le> x \<and> os_pagesize E dvd pos \<and>
      r_segment_size s = seg \<and> int (length (r_buf s)) = seg"
  have seg: "0 < seg" "os_pagesize E dvd seg" "seg \<le> capacity" "capacity < 2 ^ 62"
    using geo by (auto simp: page_segments_def)
  have eqs: "E' = E" "fd' = fd" "capacity' = capacity" and pos: "0 \<le> pos" "pos \<le> x" "os_pagesize E dvd pos"
    and set: "r_segment_size s = seg" "int (length (r_buf s)) = seg"
    using at by auto
  let ?pos = "min pos (capacity - seg)"
  have aligned: "os_pagesize E dvd ?pos" using pos(3) cap seg by (auto simp: min_def)
  have base: "page_base E ?pos = ?pos"
    by (rule page_base_aligned) (use page_segments_bounds [OF geo] pos seg aligned x in auto)
  have le: "pos \<le> capacity" and lt: "pos < capacity" using pos x by auto
  note body = body [unfolded eqs]
  show False
  proof (cases rule: read_segment_cases [OF geo pos(1) le set, of fd])
    case (1 s')
    then have "loop E fd capacity ?pos s' = Some y" using body lt by simp
    then show ?thesis
      using IH 1(2) set pos seg aligned by (fastforce simp: same_settings_def)
  next
    case 2
    then show ?thesis using aligned by (simp add: dvd_imp_mod_0)
  next
    case (3 n data s')
    have past: "?pos + seg \<le> x"
      by (rule bad [OF 3(5) [unfolded base] 3(6)]) (use pos in auto)
    then have "to_s64 (?pos + seg) = ?pos + seg" using pos seg x by auto
    then have "loop E fd capacity (?pos + seg) s' = Some y" using body lt 3(1) by simp
    then show ?thesis
      using IH 3(3) set pos seg aligned past by (fastforce simp: same_settings_def)
  qed
qed

section \<open>The staggered scrub\<close>

text \<open>
  The offsets a staggered scrub reads: for each segment number the segment of every region, as
  long as the region starts it inside the device, the last one moved back.
\<close>

definition regions_plan :: "int \<Rightarrow> int \<Rightarrow> int \<Rightarrow> int \<Rightarrow> int list \<Rightarrow> int list" where
  "regions_plan capacity seg region sn rs =
     map (\<lambda>r. min (sn * seg + r * region) (capacity - seg)) (filter (\<lambda>r. sn * seg + r * region \<le> capacity) rs)"

definition ceil_div :: "int \<Rightarrow> int \<Rightarrow> int" where
  "ceil_div a b = (a + b - 1) div b"

definition staggered_plan :: "int \<Rightarrow> int \<Rightarrow> int \<Rightarrow> int list" where
  "staggered_plan capacity seg region =
     concat (map (\<lambda>sn. regions_plan capacity seg region sn [0..ceil_div capacity region - 1])
       [0..ceil_div region seg - 1])"

lemma ceil_div_bounds:
  assumes "0 < b" shows "a \<le> ceil_div a b * b" "ceil_div a b * b < a + b"
  using div_mult_mod_eq [of "a + b - 1" b] pos_mod_bound [OF assms, of "a + b - 1"]
    pos_mod_sign [OF assms, of "a + b - 1"] unfolding ceil_div_def by linarith+

lemma ceil_div_mod:
  assumes "0 < b" shows "ceil_div a b = (if a mod b = 0 then a div b else 1 + a div b)"
proof -
  have "ceil_div a b = q" if "a \<le> q * b" "q * b < a + b" for q
  proof -
    have "ceil_div a b * b < (q + 1) * b" "q * b < (ceil_div a b + 1) * b"
      using that ceil_div_bounds [OF assms, of a] by (simp_all add: algebra_simps)
    then have "ceil_div a b < q + 1" "q < ceil_div a b + 1"
      using assms by (auto simp: mult_less_cancel_right)
    then show ?thesis by simp
  qed
  moreover define q m where "q = a div b" and "m = a mod b"
  have "a = q * b + m" "0 \<le> m" "m < b"
    using assms unfolding q_def m_def by (simp_all add: div_mult_mod_eq)
  then have "a \<le> (if m = 0 then q else 1 + q) * b" "(if m = 0 then q else 1 + q) * b < a + b"
    using assms by (auto simp: algebra_simps)
  ultimately show ?thesis unfolding q_def m_def by blast
qed

lemma reader_lceil_ceil:
  assumes "0 \<le> a" "a < 2 ^ 62" "0 < b"
  shows "reader_lceil a b = Inr (ceil_div a b)"
proof -
  have nn: "0 \<le> a div b" using assms by (simp add: pos_imp_zdiv_nonneg_iff)
  then have "a div b * 1 \<le> a div b * b" by (rule mult_left_mono [rotated]) (use assms in simp)
  then have "a div b \<le> a"
    using div_mult_mod_eq [of a b] pos_mod_sign [OF assms(3), of a] by linarith
  then show ?thesis
    using assms nn by (simp add: reader_lceil_def ceil_div_mod signed_divide_int_def signed_modulo_int_def sgn_if)
qed

text \<open>The settings stay, and on a healthy device the plan was read.\<close>

definition follows :: "os_env \<Rightarrow> int \<Rightarrow> int \<Rightarrow> int \<Rightarrow> int list \<Rightarrow> reader \<Rightarrow> reader \<Rightarrow> bool" where
  "follows E fd capacity seg plan s s' \<longleftrightarrow>
     same_settings s s' \<and> (healthy E fd capacity \<longrightarrow> clean_reads fd seg plan s s')"

lemma follows_Nil [simp]: "follows E fd capacity seg [] s s"
  by (simp add: follows_def)

lemma follows_append:
  "follows E fd capacity seg ps s s' \<Longrightarrow> follows E fd capacity seg qs s' s'' \<Longrightarrow>
     follows E fd capacity seg (ps @ qs) s s''"
  using clean_reads_append same_settings_trans by (auto simp: follows_def)

lemma aligned_read_segment:
  assumes geo: "page_segments E capacity seg" and pos: "0 \<le> pos" "pos \<le> capacity"
    and s: "r_segment_size s = seg" "int (length (r_buf s)) = seg"
    and aligned: "os_pagesize E dvd pos" "os_pagesize E dvd capacity"
  shows "\<exists>res s'. read_segment E fd capacity pos s = Inr (min pos (capacity - seg), res, s') \<and>
    res \<noteq> Give_up \<and> follows E fd capacity seg [min pos (capacity - seg)] s s'"
proof -
  have dvd: "os_pagesize E dvd min pos (capacity - seg)"
    using aligned geo by (auto simp: page_segments_def min_def)
  show ?thesis
  proof (cases rule: read_segment_cases [OF geo pos s, of fd])
    case (1 s')
    then show ?thesis by (auto simp: follows_def)
  next
    case 2
    then show ?thesis using dvd by (simp add: dvd_imp_mod_0)
  next
    case (3 n data s')
    then have "healthy E fd capacity \<longrightarrow> clean_reads fd seg [min pos (capacity - seg)] s s'"
      using healthy_read_segment [OF geo _ pos s dvd, of fd] by auto
    then show ?thesis using 3(1,3) by (auto simp: follows_def)
  qed
qed

lemma upto_Cons: "i \<le> j \<Longrightarrow> [i..j] = i # [i + 1..j]" for i j :: int
  by (simp add: upto.simps)

lemma stag_regions_reads:
  assumes geo: "page_segments E capacity seg" and cap: "os_pagesize E dvd capacity"
    and region: "0 < region" "region < 2 ^ 62" "os_pagesize E dvd region"
    and sn: "0 \<le> sn" "sn * seg < region" and regnum: "regnum * region < capacity + region"
  shows "0 \<le> r \<Longrightarrow> r_segment_size s = seg \<Longrightarrow> r_region_size s = region \<Longrightarrow> int (length (r_buf s)) = seg \<Longrightarrow>
    \<exists>s'. reader_stag_regions E fd capacity regnum sn r s = Inr (False, s') \<and>
      follows E fd capacity seg (regions_plan capacity seg region sn [r..regnum - 1]) s s'"
proof (induction "nat (regnum - r)" arbitrary: r s)
  case 0
  then show ?case by (subst reader_stag_regions.simps) (simp add: regions_plan_def)
next
  case (Suc m)
  let ?pos = "sn * seg + r * region"
  have r: "r < regnum" using Suc.hyps(2) by simp
  have seg: "0 < seg" "os_pagesize E dvd seg" "capacity < 2 ^ 62" using geo by (auto simp: page_segments_def)
  have "r * region \<le> (regnum - 1) * region" by (rule mult_right_mono) (use r region in auto)
  then have rr: "r * region < capacity" "0 \<le> r * region" "0 \<le> sn * seg"
    using regnum Suc.prems(1) region sn seg by (auto simp: algebra_simps)
  have exact: "to_s64 (to_s64 (sn * seg) + to_s64 (r * region)) = ?pos"
    by (rule to_s64_sum) (use rr sn region seg in linarith)+
  show ?case
  proof (cases "?pos \<le> capacity")
    case True
    have "0 \<le> ?pos" "os_pagesize E dvd ?pos" using rr seg region by auto
    then obtain res s1 where s1: "read_segment E fd capacity ?pos s = Inr (min ?pos (capacity - seg), res, s1)"
        "res \<noteq> Give_up" "follows E fd capacity seg [min ?pos (capacity - seg)] s s1"
      using aligned_read_segment [OF geo _ True Suc.prems(2,4) _ cap] by blast
    have m: "m = nat (regnum - (r + 1))" using Suc.hyps(2) by simp
    obtain s2 where s2: "reader_stag_regions E fd capacity regnum sn (r + 1) s1 = Inr (False, s2)"
        "follows E fd capacity seg (regions_plan capacity seg region sn [r + 1..regnum - 1]) s1 s2"
      using Suc.hyps(1) [OF m, of s1] Suc.prems s1(3) by (auto simp: follows_def same_settings_def)
    have "reader_stag_regions E fd capacity regnum sn r s = Inr (False, s2)"
      using r True s1(1,2) s2(1) Suc.prems
      by (subst reader_stag_regions.simps) (auto simp: Let_def exact split: segment_result.splits)
    moreover have "regions_plan capacity seg region sn [r..regnum - 1] =
        [min ?pos (capacity - seg)] @ regions_plan capacity seg region sn [r + 1..regnum - 1]"
      using r True by (simp add: regions_plan_def upto_Cons)
    ultimately show ?thesis using follows_append [OF s1(3) s2(2)] by auto
  next
    case False
    have "\<not> sn * seg + r' * region \<le> capacity" if "r' \<in> set [r..regnum - 1]" for r'
    proof -
      have "r * region \<le> r' * region" by (rule mult_right_mono) (use that region in auto)
      then show ?thesis using False by simp
    qed
    then have "filter (\<lambda>r. sn * seg + r * region \<le> capacity) [r..regnum - 1] = []"
      by (simp add: filter_empty_conv)
    then show ?thesis
      using r False Suc.prems by (subst reader_stag_regions.simps) (simp add: regions_plan_def Let_def exact)
  qed
qed

lemma stag_segments_reads:
  assumes geo: "page_segments E capacity seg" and cap: "os_pagesize E dvd capacity"
    and region: "0 < region" "region < 2 ^ 62" "os_pagesize E dvd region"
    and regnum: "regnum * region < capacity + region" and segnum: "segnum * seg < region + seg"
  shows "0 \<le> sn \<Longrightarrow> r_segment_size s = seg \<Longrightarrow> r_region_size s = region \<Longrightarrow> int (length (r_buf s)) = seg \<Longrightarrow>
    \<exists>s'. reader_stag_segments E fd capacity regnum segnum sn s = Inr (0, s') \<and>
      follows E fd capacity seg
        (concat (map (\<lambda>sn. regions_plan capacity seg region sn [0..regnum - 1]) [sn..segnum - 1])) s s'"
proof (induction "nat (segnum - sn)" arbitrary: sn s)
  case 0
  then show ?case by (subst reader_stag_segments.simps) simp
next
  case (Suc m)
  have sn: "sn < segnum" using Suc.hyps(2) by simp
  have "sn * seg \<le> (segnum - 1) * seg"
    by (rule mult_right_mono) (use sn geo in \<open>auto simp: page_segments_def\<close>)
  then have "sn * seg < region" using segnum by (simp add: algebra_simps)
  then obtain s1 where s1: "reader_stag_regions E fd capacity regnum sn 0 s = Inr (False, s1)"
      "follows E fd capacity seg (regions_plan capacity seg region sn [0..regnum - 1]) s s1"
    using stag_regions_reads [OF geo cap region Suc.prems(1) _ regnum, of 0 s fd] Suc.prems by auto
  have m: "m = nat (segnum - (sn + 1))" using Suc.hyps(2) by simp
  obtain s2 where s2: "reader_stag_segments E fd capacity regnum segnum (sn + 1) s1 = Inr (0, s2)"
      "follows E fd capacity seg
        (concat (map (\<lambda>sn. regions_plan capacity seg region sn [0..regnum - 1]) [sn + 1..segnum - 1])) s1 s2"
    using Suc.hyps(1) [OF m, of s1] Suc.prems s1(2) by (auto simp: follows_def same_settings_def)
  have "reader_stag_segments E fd capacity regnum segnum sn s = Inr (0, s2)"
    using sn s1(1) s2(1) by (subst reader_stag_segments.simps) simp
  then show ?case using follows_append [OF s1(2) s2(2)] sn by (simp add: upto_Cons)
qed

lemma whole_stgscrub:
  assumes geo: "page_segments E capacity seg" and cap: "os_pagesize E dvd capacity"
    and region: "0 < region" "region < 2 ^ 62" "os_pagesize E dvd region"
    and s: "r_segment_size s = seg" "r_region_size s = region" "int (length (r_buf s)) = seg"
  shows "\<exists>s'. reader_stgscrub E fd capacity s = Inr (0, s') \<and>
    follows E fd capacity seg (staggered_plan capacity seg region) s s'"
proof -
  have seg: "0 < seg" "0 \<le> capacity" "capacity < 2 ^ 62" using geo by (auto simp: page_segments_def)
  note ceil = reader_lceil_ceil [OF seg(2,3) region(1)] reader_lceil_ceil [OF _ region(2) seg(1)]
  show ?thesis
    using stag_segments_reads [OF geo cap region ceil_div_bounds(2) [OF region(1)] ceil_div_bounds(2) [OF seg(1)],
        of 0 s fd] s ceil region(1)
    by (simp add: reader_stgscrub_def staggered_plan_def)
qed

section \<open>What the plans cover\<close>

definition covers :: "int \<Rightarrow> int \<Rightarrow> int list \<Rightarrow> bool" where
  "covers capacity seg plan \<longleftrightarrow> (\<forall>x. 0 \<le> x \<and> x < capacity \<longrightarrow> (\<exists>pos\<in>set plan. pos \<le> x \<and> x < pos + seg))"

lemma div_in_ceil:
  assumes "0 < b" "0 \<le> x" "x < a"
  shows "x div b * b \<le> x" "x < x div b * b + b" "0 \<le> x div b" "x div b \<le> ceil_div a b - 1"
proof -
  show b: "x div b * b \<le> x" "x < x div b * b + b"
    using div_mult_mod_eq [of x b] pos_mod_bound [OF assms(1), of x] pos_mod_sign [OF assms(1), of x] by linarith+
  show "0 \<le> x div b" using assms by (simp add: pos_imp_zdiv_nonneg_iff)
  have "x div b * b < ceil_div a b * b" using b(1) assms(3) ceil_div_bounds(1) [OF assms(1), of a] by linarith
  then show "x div b \<le> ceil_div a b - 1" using assms(1) by (auto simp: mult_less_cancel_right)
qed

lemma sequential_plan_covers:
  assumes "0 < seg" shows "covers capacity seg (sequential_plan capacity seg)"
  unfolding covers_def
proof (intro allI impI)
  fix x assume x: "0 \<le> x \<and> x < capacity"
  define k where "k = nat (x div seg)"
  have k: "int k * seg \<le> x" "x < int k * seg + seg"
    using div_in_ceil [OF assms, of x capacity] x unfolding k_def by simp_all
  then have "\<not> capacity \<le> int k * seg" using x by simp
  then have "k < nat ((capacity + seg - 1) div seg)" using ceil_div_le [OF assms, of capacity k] by simp
  then have "min (int k * seg) (capacity - seg) \<in> set (sequential_plan capacity seg)"
    by (simp add: sequential_plan_def)
  then show "\<exists>pos\<in>set (sequential_plan capacity seg). pos \<le> x \<and> x < pos + seg"
    by (rule rev_bexI) (use k x in auto)
qed

lemma staggered_plan_covers:
  assumes "0 < seg" "0 < region" shows "covers capacity seg (staggered_plan capacity seg region)"
  unfolding covers_def
proof (intro allI impI)
  fix x assume x: "0 \<le> x \<and> x < capacity"
  define r sn where "r = x div region" and "sn = (x mod region) div seg"
  have r: "r * region + x mod region = x" "r \<in> set [0..ceil_div capacity region - 1]"
    using div_in_ceil [OF assms(2), of x capacity] x unfolding r_def by (auto simp: div_mult_mod_eq)
  have sn: "sn * seg \<le> x mod region" "x mod region < sn * seg + seg" "sn \<in> set [0..ceil_div region seg - 1]"
    using div_in_ceil [OF assms(1), of "x mod region" region] assms(2) unfolding sn_def by auto
  let ?pos = "sn * seg + r * region"
  have pos: "?pos \<le> x" "x < ?pos + seg" using r(1) sn(1,2) by linarith+
  then have "r \<in> set (filter (\<lambda>r. sn * seg + r * region \<le> capacity) [0..ceil_div capacity region - 1])"
    using r(2) x by simp
  then have "min ?pos (capacity - seg) \<in> set (regions_plan capacity seg region sn [0..ceil_div capacity region - 1])"
    by (simp only: regions_plan_def set_map) (rule imageI)
  then have "min ?pos (capacity - seg) \<in> set (staggered_plan capacity seg region)"
    using sn(3) unfolding staggered_plan_def by auto
  then show "\<exists>pos\<in>set (staggered_plan capacity seg region). pos \<le> x \<and> x < pos + seg"
    by (rule rev_bexI) (use pos x in auto)
qed

section \<open>The program on one device\<close>

lemma reader_options_keep:
  "reader_options opts s = Inr (code, s') \<Longrightarrow> r_technique s \<in> {0, 1, 2, 3} \<Longrightarrow>
     r_reads s' = r_reads s \<and> r_out s' = r_out s \<and> r_technique s' \<in> {0, 1, 2, 3}"
proof (induction opts s arbitrary: code s' rule: reader_options.induct)
  case (2 c arg opts s)
  have t: "technique_option arg (r_technique s) \<in> {0, 1, 2, 3}"
    using 2(7) by (auto simp: technique_option_def SEQLSCRUB_def STAGSCRUB_def BOTHSCRUB_def)
  show ?case
    using 2(6,7) t 2(1) [of code s'] 2(2) [of code s'] 2(3) [of code s'] 2(4) [of code s'] 2(5) [of code s']
    by (simp split: if_splits)
qed simp

text \<open>The operating system serves the device \<open>dev\<close> under the descriptor \<open>fd\<close>.\<close>

definition serves :: "os_env \<Rightarrow> string \<Rightarrow> int \<Rightarrow> int \<Rightarrow> bool" where
  "serves E dev fd capacity \<longleftrightarrow> length dev < 256 \<and> fd \<noteq> -1 \<and> (\<forall>n. os_open E n dev = fd) \<and>
     (\<forall>n. os_lseek_end E n fd = capacity) \<and> (\<forall>n. os_close E n fd \<noteq> -1) \<and>
     (\<forall>n len. 0 \<le> len \<longrightarrow> (\<exists>b. os_malloc E n len = Some b \<and> int (length b) = len))"

definition device_plan :: "int \<Rightarrow> int \<Rightarrow> int \<Rightarrow> int \<Rightarrow> int list" where
  "device_plan technique capacity seg region =
     (if technique = STAGSCRUB then [] else sequential_plan capacity seg) @
     (if technique = SEQLSCRUB then [] else staggered_plan capacity seg region)"

definition device_report :: "int \<Rightarrow> message list" where
  "device_report technique =
     (if technique = STAGSCRUB then [] else [Scrub_succeeded ''Sequential'' 0]) @
     (if technique = SEQLSCRUB then [] else [Scrub_succeeded ''Staggered'' 0])"

lemma scrubdev_reads:
  assumes geo: "page_segments E capacity seg" and cap: "os_pagesize E dvd capacity"
    and region: "0 < region" "region < 2 ^ 62" "os_pagesize E dvd region"
    and ok: "healthy E fd capacity" "serves E dev fd capacity"
    and s: "r_segment_size s = seg" "r_region_size s = region" "r_technique s \<in> {1, 2, 3}" "\<not> r_debug s"
  shows "\<exists>s'. reader_scrubdev E fd s = Some (Inr (0, s')) \<and>
    r_reads s' = r_reads s @ plan_reads fd seg (device_plan (r_technique s) capacity seg region) \<and>
    r_out s' = r_out s @ device_report (r_technique s)"
proof -
  have seg: "0 < seg" "seg < 2 ^ 62" using page_segments_bounds [OF geo] by auto
  obtain b where b: "os_malloc E (r_calls s) (to_u64 seg) = Some b" "int (length b) = seg"
    using ok(2) seg unfolding serves_def by (simp, meson less_imp_le)
  let ?s = "tick ((tick s)\<lparr>r_buf := b\<rparr>)"
  let ?seq = "if r_technique s = STAGSCRUB then [] else sequential_plan capacity seg"
  let ?stag = "if r_technique s = SEQLSCRUB then [] else staggered_plan capacity seg region"
  have s1: "r_segment_size ?s = seg" "r_region_size ?s = region" "int (length (r_buf ?s)) = seg"
      "r_technique ?s = r_technique s" "r_reads ?s = r_reads s" "r_out ?s = r_out s" "\<not> r_debug ?s"
    using s b(2) by (auto simp: tick_def)
  obtain s2 where s2: "sequential_stage E fd capacity ?s = Some (Inr s2)" "same_settings ?s s2"
      "r_reads s2 = r_reads s @ plan_reads fd seg ?seq"
      "r_out s2 = r_out s @ (if r_technique s = STAGSCRUB then [] else [Scrub_succeeded ''Sequential'' 0])"
    using whole_seqscrub [OF geo ok(1) cap, of "?s\<lparr>r_read_errs := 0\<rparr>"] s1 s(3)
    by (auto simp: sequential_stage_def then_run_def report_scrub_def say_def clean_reads_def plan_reads_def
        same_settings_def SEQLSCRUB_def STAGSCRUB_def BOTHSCRUB_def)
  obtain s3 where s3: "staggered_stage E fd capacity s2 = Some (Inr s3)"
      "r_reads s3 = r_reads s2 @ plan_reads fd seg ?stag"
      "r_out s3 = r_out s2 @ (if r_technique s = SEQLSCRUB then [] else [Scrub_succeeded ''Staggered'' 0])"
    using whole_stgscrub [OF geo cap region, of "s2\<lparr>r_read_errs := 0\<rparr>" fd] s1 s2(2) s(3) ok(1)
    by (auto simp: staggered_stage_def then_run_def report_scrub_def say_def clean_reads_def plan_reads_def
        follows_def same_settings_def SEQLSCRUB_def STAGSCRUB_def BOTHSCRUB_def)
  have "reader_scrubdev E fd s = Some (Inr (0, s3))"
    using b(1) s(1) s2(1) s3(1) ok(2) by (simp add: reader_scrubdev_def Let_def then_run_def serves_def)
  then show ?thesis
    using s2 s3 by (auto simp: device_plan_def device_report_def plan_reads_def)
qed

lemma device_plan_covers:
  assumes "0 < seg" "0 < region"
  shows "covers capacity seg (device_plan technique capacity seg region)"
  using sequential_plan_covers [OF assms(1), of capacity] staggered_plan_covers [OF assms, of capacity]
  by (auto simp: covers_def device_plan_def SEQLSCRUB_def STAGSCRUB_def)


definition sample_os :: os_env where
  "sample_os = \<lparr>os_pagesize = 4096, os_lseek = (\<lambda>_ _ pos. pos), os_lseek_end = (\<lambda>_ _. 4194304),
     os_memalign = (\<lambda>_ _. 0), os_read = (\<lambda>_ _ _ len. Some (replicate (nat len) 0)),
     os_malloc = (\<lambda>_ len. Some (replicate (nat len) 0)), os_open = (\<lambda>_ _. 3), os_close = (\<lambda>_ _. 0)\<rparr>"



definition bad_os :: os_env where
  "bad_os = sample_os\<lparr>os_read := (\<lambda>_ _ pos len. if pos \<le> 5000 \<and> 5000 < pos + len then None
     else Some (replicate (nat len) 0))\<rparr>"




end
