(* ===== verification/Elevator.thy ===== *)
theory Elevator
  imports Scrub_Prelude "HOL-Library.Monad_Syntax" "HOL-Library.Multiset"
begin

text \<open>
  How a request of the scrubber goes through the block layer: \<open>blk_execute_scsi_nowait\<close> of
  \<^verbatim>\<open>block/blk-exec.c\<close>, the insertion points of \<^verbatim>\<open>block/elevator.c\<close> with the one the scrubber adds
  (\<open>ELEVATOR_INSERT_VERIFY\<close>), plugging and the hand-over to the driver of \<^verbatim>\<open>block/blk-core.c\<close>, and
  the scheduler \<^verbatim>\<open>block/noop-iosched.c\<close>. \<open>Deadline\<close> has the second scheduler.

  A request is a record with the flags that this code reads; \<open>er_id\<close> is its address. A request queue
  has the dispatch list, the flags, and the data of its scheduler, whose operations are the record
  \<open>elv_ops\<close>. The locale \<open>io_scheduler\<close> is what the elevator relies on in a scheduler. \<open>None\<close> is a
  \<open>BUG\<close> or a loop that never ends.

  The driver is a parameter: its routine \<open>request_fn\<close> and its \<open>prep_rq_fn\<close>. So is what
  \<^verbatim>\<open>block/blk-barrier.c\<close> does with a barrier request that starts an ordered sequence; which requests pass
  while one is in progress is modelled.
\<close>

section \<open>Requests and queues\<close>

datatype cmd_type = TYPE_FS | TYPE_BLOCK_PC | TYPE_PM_RESUME | TYPE_OTHER

record elv_rq =
  er_id :: nat
  er_type :: cmd_type
  er_pos :: u64
  er_bytes :: u32
  er_write :: bool
  er_rw_sync :: bool
  er_discard :: bool
  er_sorted :: bool
  er_softbarrier :: bool
  er_hardbarrier :: bool
  er_started :: bool
  er_nomerge :: bool
  er_dontprep :: bool
  er_quiet :: bool
  er_elvpriv :: bool
  er_ordered_color :: bool
  er_fifo_time :: u64

record 'd rqueue =
  q_head :: "elv_rq list"
  q_nr_sorted :: u32
  q_end_sector :: u64
  q_boundary_rq :: "nat option"
  q_last_merge :: "nat option"
  q_hash :: "nat list"
  q_plugged :: bool
  q_stopped :: bool
  q_nonrot :: bool
  q_reenter :: bool
  q_ordcolor :: bool
  q_ordseq :: u32
  q_ordered :: u32
  q_orig_bar_color :: bool
  q_pre_flush_rq :: nat
  q_bar_rq :: nat
  q_post_flush_rq :: nat
  q_rq_count :: u32
  q_in_flight_sync :: u32
  q_in_flight_async :: u32
  q_unplug_thresh :: int
  q_started :: "elv_rq list"
  q_ended :: "elv_rq list"
  q_data :: 'd

record 'd elv_ops =
  eo_add_req :: "'d rqueue \<Rightarrow> elv_rq \<Rightarrow> 'd rqueue option"
  eo_dispatch :: "'d rqueue \<Rightarrow> bool \<Rightarrow> (bool \<times> 'd rqueue) option"
  eo_queue_empty :: "'d rqueue \<Rightarrow> bool"

datatype prep_result = BLKPREP_OK | BLKPREP_KILL | BLKPREP_DEFER | BLKPREP_BAD

record 'd queue_fns =
  qf_request_fn :: "'d rqueue \<Rightarrow> 'd rqueue option"
  qf_prep_rq_fn :: "elv_rq \<Rightarrow> prep_result \<times> elv_rq"
  qf_start_ordered :: "'d rqueue \<Rightarrow> elv_rq \<Rightarrow> (bool \<times> elv_rq option \<times> 'd rqueue) option"

definition blk_rq_sectors :: "elv_rq \<Rightarrow> u32" where
  "blk_rq_sectors rq = drop_bit 9 (er_bytes rq)"

definition rq_end_sector :: "elv_rq \<Rightarrow> u64" where
  "rq_end_sector rq = er_pos rq + ucast (blk_rq_sectors rq)"

definition rq_is_sync :: "elv_rq \<Rightarrow> bool" where
  "rq_is_sync rq \<longleftrightarrow> \<not> er_write rq \<or> er_rw_sync rq"

definition blk_account_rq :: "elv_rq \<Rightarrow> bool" where
  "blk_account_rq rq \<longleftrightarrow> er_started rq \<and> (er_type rq = TYPE_BLOCK_PC \<or> er_type rq = TYPE_FS \<or> er_discard rq)"

definition rq_mergeable :: "elv_rq \<Rightarrow> bool" where
  "rq_mergeable rq \<longleftrightarrow>
     \<not> (er_nomerge rq \<or> er_started rq \<or> er_hardbarrier rq \<or> er_softbarrier rq) \<and>
     (er_discard rq \<or> er_type rq = TYPE_FS)"

section \<open>Dispatching\<close>

definition forget_merge :: "elv_rq \<Rightarrow> 'd rqueue \<Rightarrow> 'd rqueue" where
  "forget_merge rq q =
     q\<lparr>q_last_merge := (if q_last_merge q = Some (er_id rq) then None else q_last_merge q),
       q_hash := removeAll (er_id rq) (q_hash q), q_nr_sorted := q_nr_sorted q - 1\<rparr>"

text \<open>Does the walk from the back of the dispatch list stop at \<open>pos\<close>?\<close>

definition sort_stops :: "u64 \<Rightarrow> elv_rq \<Rightarrow> elv_rq \<Rightarrow> bool" where
  "sort_stops boundary rq pos \<longleftrightarrow>
     er_discard rq \<noteq> er_discard pos \<or> er_write rq \<noteq> er_write pos \<or>
     er_softbarrier pos \<or> er_hardbarrier pos \<or> er_started pos \<or>
     (if er_pos rq \<ge> boundary then \<not> er_pos pos < boundary \<and> er_pos rq \<ge> er_pos pos
      else er_pos pos \<ge> boundary \<or> er_pos rq \<ge> er_pos pos)"

definition sort_into :: "u64 \<Rightarrow> elv_rq \<Rightarrow> elv_rq list \<Rightarrow> elv_rq list" where
  "sort_into boundary rq rqs =
     rev (dropWhile (\<lambda>pos. \<not> sort_stops boundary rq pos) (rev rqs)) @ [rq] @
     rev (takeWhile (\<lambda>pos. \<not> sort_stops boundary rq pos) (rev rqs))"

definition elv_dispatch_sort :: "'d rqueue \<Rightarrow> elv_rq \<Rightarrow> 'd rqueue" where
  "elv_dispatch_sort q rq =
     (forget_merge rq q)\<lparr>q_head := sort_into (q_end_sector q) rq (q_head q)\<rparr>"

definition elv_dispatch_add_tail :: "'d rqueue \<Rightarrow> elv_rq \<Rightarrow> 'd rqueue" where
  "elv_dispatch_add_tail q rq =
     (forget_merge rq q)\<lparr>q_end_sector := rq_end_sector rq, q_boundary_rq := Some (er_id rq),
       q_head := q_head q @ [rq]\<rparr>"

partial_function (option) elv_drain_elevator :: "'d elv_ops \<Rightarrow> 'd rqueue \<Rightarrow> 'd rqueue option" where
  "elv_drain_elevator ops q =
     (case eo_dispatch ops q True of
        None \<Rightarrow> None
      | Some (again, q) \<Rightarrow> if again then elv_drain_elevator ops q else Some q)"

definition elv_queue_empty :: "'d elv_ops \<Rightarrow> 'd rqueue \<Rightarrow> bool" where
  "elv_queue_empty ops q \<longleftrightarrow> q_head q = [] \<and> eo_queue_empty ops q"

section \<open>Plugging\<close>

definition blk_plug_device :: "'d rqueue \<Rightarrow> 'd rqueue" where
  "blk_plug_device q = (if q_stopped q then q else q\<lparr>q_plugged := True\<rparr>)"

definition blk_remove_plug :: "'d rqueue \<Rightarrow> bool \<times> 'd rqueue" where
  "blk_remove_plug q = (q_plugged q, q\<lparr>q_plugged := False\<rparr>)"

definition generic_unplug_device :: "'d queue_fns \<Rightarrow> 'd rqueue \<Rightarrow> 'd rqueue option" where
  "generic_unplug_device F q =
     (if q_stopped q then Some q
      else let (was, q) = blk_remove_plug q in
      if \<not> was \<and> \<not> q_nonrot q then Some q else qf_request_fn F q)"

definition blk_run_queue :: "'d elv_ops \<Rightarrow> 'd queue_fns \<Rightarrow> 'd rqueue \<Rightarrow> 'd rqueue option" where
  "blk_run_queue ops F q =
     (let q = snd (blk_remove_plug q) in
      if q_stopped q then Some q
      else if elv_queue_empty ops q then Some q
      else if \<not> q_reenter q then
        map_option (\<lambda>q. q\<lparr>q_reenter := False\<rparr>) (qf_request_fn F (q\<lparr>q_reenter := True\<rparr>))
      else Some (q\<lparr>q_plugged := True\<rparr>))"

section \<open>Insertion\<close>

definition ELEVATOR_INSERT_FRONT :: int where "ELEVATOR_INSERT_FRONT = 1"
definition ELEVATOR_INSERT_BACK :: int where "ELEVATOR_INSERT_BACK = 2"
definition ELEVATOR_INSERT_SORT :: int where "ELEVATOR_INSERT_SORT = 3"
definition ELEVATOR_INSERT_REQUEUE :: int where "ELEVATOR_INSERT_REQUEUE = 4"
definition ELEVATOR_INSERT_VERIFY :: int where "ELEVATOR_INSERT_VERIFY = 5"

lemmas insert_points = ELEVATOR_INSERT_FRONT_def ELEVATOR_INSERT_BACK_def ELEVATOR_INSERT_SORT_def
  ELEVATOR_INSERT_REQUEUE_def ELEVATOR_INSERT_VERIFY_def

definition QUEUE_ORDERED_BY_TAG :: u32 where "QUEUE_ORDERED_BY_TAG = 0x02"
definition QUEUE_ORDSEQ_DRAIN :: u32 where "QUEUE_ORDSEQ_DRAIN = 0x02"
definition QUEUE_ORDSEQ_PREFLUSH :: u32 where "QUEUE_ORDSEQ_PREFLUSH = 0x04"
definition QUEUE_ORDSEQ_BAR :: u32 where "QUEUE_ORDSEQ_BAR = 0x08"
definition QUEUE_ORDSEQ_POSTFLUSH :: u32 where "QUEUE_ORDSEQ_POSTFLUSH = 0x10"
definition QUEUE_ORDSEQ_DONE :: u32 where "QUEUE_ORDSEQ_DONE = 0x20"

text \<open>\<open>ffz\<close> is the position of the lowest bit that is not set.\<close>

definition ffz :: "u32 \<Rightarrow> nat" where
  "ffz w = length (takeWhile (bit w) [0 ..< 32])"

definition blk_ordered_cur_seq :: "'d rqueue \<Rightarrow> u32" where
  "blk_ordered_cur_seq q = (if q_ordseq q = 0 then 0 else push_bit (ffz (q_ordseq q)) 1)"

text \<open>Only called while a sequence is in progress.\<close>

definition blk_ordered_req_seq :: "'d rqueue \<Rightarrow> elv_rq \<Rightarrow> u32" where
  "blk_ordered_req_seq q rq =
     (if er_id rq = q_pre_flush_rq q then QUEUE_ORDSEQ_PREFLUSH
      else if er_id rq = q_bar_rq q then QUEUE_ORDSEQ_BAR
      else if er_id rq = q_post_flush_rq q then QUEUE_ORDSEQ_POSTFLUSH
      else if er_type rq \<noteq> TYPE_FS then QUEUE_ORDSEQ_DRAIN
      else if er_ordered_color rq = q_orig_bar_color q then QUEUE_ORDSEQ_DRAIN
      else QUEUE_ORDSEQ_DONE)"

definition requeue_into :: "(elv_rq \<Rightarrow> u32) \<Rightarrow> elv_rq \<Rightarrow> elv_rq list \<Rightarrow> elv_rq list" where
  "requeue_into seq rq rqs =
     takeWhile (\<lambda>pos. \<not> seq rq \<le> seq pos) rqs @ [rq] @ dropWhile (\<lambda>pos. \<not> seq rq \<le> seq pos) rqs"

definition enter_sorted :: "'d elv_ops \<Rightarrow> 'd rqueue \<Rightarrow> elv_rq \<Rightarrow> 'd rqueue option" where
  "enter_sorted ops q rq = eo_add_req ops (q\<lparr>q_nr_sorted := q_nr_sorted q + 1\<rparr>) (rq\<lparr>er_sorted := True\<rparr>)"

definition enter_merge :: "elv_rq \<Rightarrow> 'd rqueue \<Rightarrow> 'd rqueue option" where
  "enter_merge rq q =
     (if rq_mergeable rq then
        if er_id rq \<in> set (q_hash q) then None
        else Some (q\<lparr>q_hash := er_id rq # q_hash q,
          q_last_merge := (if q_last_merge q = None then Some (er_id rq) else q_last_merge q)\<rparr>)
      else Some q)"

definition insert_at :: "'d elv_ops \<Rightarrow> 'd queue_fns \<Rightarrow> 'd rqueue \<Rightarrow> elv_rq \<Rightarrow> int \<Rightarrow> 'd rqueue option" where
  "insert_at ops F q rq where_to =
     (if where_to = ELEVATOR_INSERT_FRONT then
        Some (q\<lparr>q_head := rq\<lparr>er_softbarrier := True\<rparr> # q_head q\<rparr>)
      else if where_to = ELEVATOR_INSERT_BACK then
        do { q \<leftarrow> elv_drain_elevator ops q;
             blk_run_queue ops F (q\<lparr>q_head := q_head q @ [rq\<lparr>er_softbarrier := True\<rparr>]\<rparr>) }
      else if where_to = ELEVATOR_INSERT_VERIFY then enter_sorted ops q rq
      else if where_to = ELEVATOR_INSERT_SORT then
        if er_type rq \<noteq> TYPE_FS \<and> \<not> er_discard rq then None
        else do { q \<leftarrow> enter_merge (rq\<lparr>er_sorted := True\<rparr>) q; enter_sorted ops q rq }
      else if where_to = ELEVATOR_INSERT_REQUEUE then
        Some (q\<lparr>q_head := (if q_ordseq q = 0 then rq\<lparr>er_softbarrier := True\<rparr> # q_head q
           else requeue_into (blk_ordered_req_seq q) (rq\<lparr>er_softbarrier := True\<rparr>) (q_head q))\<rparr>)
      else None)"

text \<open>Requests allocated and not in flight, as the \<open>int\<close> that is compared with the threshold.\<close>

definition waiting_requests :: "'d rqueue \<Rightarrow> int" where
  "waiting_requests q = sint (q_rq_count q - (q_in_flight_sync q + q_in_flight_async q))"

definition elv_insert :: "'d elv_ops \<Rightarrow> 'd queue_fns \<Rightarrow> 'd rqueue \<Rightarrow> elv_rq \<Rightarrow> int \<Rightarrow> 'd rqueue option" where
  "elv_insert ops F q rq where_to =
     do { q \<leftarrow> insert_at ops F q rq where_to;
          if where_to \<noteq> ELEVATOR_INSERT_REQUEUE \<and> q_plugged q \<and> waiting_requests q \<ge> q_unplug_thresh q
          then generic_unplug_device F q else Some q }"

definition elv_add_request :: "'d elv_ops \<Rightarrow> 'd queue_fns \<Rightarrow> 'd rqueue \<Rightarrow> elv_rq \<Rightarrow> int \<Rightarrow> bool \<Rightarrow> 'd rqueue option" where
  "elv_add_request ops F q rq where_to plug =
     (let rq = (if q_ordcolor q then rq\<lparr>er_ordered_color := True\<rparr> else rq);
          barrier = er_softbarrier rq \<or> er_hardbarrier rq;
          bounds = barrier \<and> (er_type rq = TYPE_FS \<or> er_discard rq);
          q = q\<lparr>q_ordcolor := (if er_hardbarrier rq then \<not> q_ordcolor q else q_ordcolor q),
                q_end_sector := (if bounds then rq_end_sector rq else q_end_sector q),
                q_boundary_rq := (if bounds then Some (er_id rq) else q_boundary_rq q)\<rparr>;
          where_to = (if where_to = ELEVATOR_INSERT_SORT \<and> (barrier \<or> \<not> er_elvpriv rq)
                      then ELEVATOR_INSERT_BACK else where_to);
          q = (if plug then blk_plug_device q else q)
      in elv_insert ops F q rq where_to)"

definition blk_execute_rq_nowait :: "'d elv_ops \<Rightarrow> 'd queue_fns \<Rightarrow> 'd rqueue \<Rightarrow> elv_rq \<Rightarrow> bool \<Rightarrow> 'd rqueue option" where
  "blk_execute_rq_nowait ops F q rq at_head =
     do { q \<leftarrow> elv_add_request ops F q rq (if at_head then ELEVATOR_INSERT_FRONT else ELEVATOR_INSERT_BACK) True;
          q \<leftarrow> generic_unplug_device F q;
          if er_type rq = TYPE_PM_RESUME then qf_request_fn F q else Some q }"

definition blk_execute_scsi_nowait :: "'d elv_ops \<Rightarrow> 'd queue_fns \<Rightarrow> 'd rqueue \<Rightarrow> elv_rq \<Rightarrow> 'd rqueue option" where
  "blk_execute_scsi_nowait ops F q rq =
     do { q \<leftarrow> elv_add_request ops F q rq ELEVATOR_INSERT_VERIFY True;
          generic_unplug_device F q }"

section \<open>The hand-over to the driver\<close>

definition is_barrier :: "elv_rq \<Rightarrow> bool" where
  "is_barrier rq \<longleftrightarrow> er_type rq = TYPE_FS \<and> er_hardbarrier rq"

definition blk_do_ordered :: "'d queue_fns \<Rightarrow> 'd rqueue \<Rightarrow> elv_rq \<Rightarrow> (bool \<times> elv_rq option \<times> 'd rqueue) option" where
  "blk_do_ordered F q rq =
     (if q_ordseq q = 0 then if \<not> is_barrier rq then Some (True, Some rq, q) else qf_start_ordered F q rq
      else if er_type rq \<noteq> TYPE_FS \<and> er_id rq \<noteq> q_pre_flush_rq q \<and> er_id rq \<noteq> q_post_flush_rq q
      then Some (True, Some rq, q)
      else if q_ordered q AND QUEUE_ORDERED_BY_TAG \<noteq> 0
      then Some (True, if is_barrier rq \<and> er_id rq \<noteq> q_bar_rq q then None else Some rq, q)
      else Some (True, if blk_ordered_req_seq q rq > blk_ordered_cur_seq q then None else Some rq, q))"

text \<open>
  A request that no ordered sequence holds back: none is in progress and it does not start one, or it is
  no request of a file system and no flush of the sequence.
\<close>

definition unordered :: "'d rqueue \<Rightarrow> elv_rq \<Rightarrow> bool" where
  "unordered q rq \<longleftrightarrow> (if q_ordseq q = 0 then \<not> is_barrier rq
     else er_type rq \<noteq> TYPE_FS \<and> er_id rq \<noteq> q_pre_flush_rq q \<and> er_id rq \<noteq> q_post_flush_rq q)"

lemma unordered_passes: "unordered q rq \<Longrightarrow> blk_do_ordered F q rq = Some (True, Some rq, q)"
  by (auto simp: unordered_def blk_do_ordered_def split: if_splits)

partial_function (option) elv_next_request ::
  "'d elv_ops \<Rightarrow> 'd queue_fns \<Rightarrow> 'd rqueue \<Rightarrow> (elv_rq option \<times> 'd rqueue) option" where
  "elv_next_request ops F q =
     (case q_head q of
        rq # rqs \<Rightarrow>
          (case blk_do_ordered F q rq of
             None \<Rightarrow> None
           | Some (ok, rqp, q) \<Rightarrow> if ok then Some (rqp, q) else elv_next_request ops F q)
      | [] \<Rightarrow>
          (case eo_dispatch ops q False of
             None \<Rightarrow> None
           | Some (again, q) \<Rightarrow> if again then elv_next_request ops F q else Some (None, q)))"

text \<open>A request is changed in place, and taken off the dispatch list, by its address.\<close>

definition put_rq :: "elv_rq \<Rightarrow> 'd rqueue \<Rightarrow> 'd rqueue" where
  "put_rq rq q = q\<lparr>q_head := map (\<lambda>r. if er_id r = er_id rq then rq else r) (q_head q)\<rparr>"

definition blk_dequeue_request :: "elv_rq \<Rightarrow> 'd rqueue \<Rightarrow> 'd rqueue option" where
  "blk_dequeue_request rq q =
     (if er_id rq \<notin> er_id ` set (q_head q) \<or> er_id rq \<in> set (q_hash q) then None
      else let q = q\<lparr>q_head := filter (\<lambda>r. er_id r \<noteq> er_id rq) (q_head q)\<rparr> in
      Some (if blk_account_rq rq then
          if rq_is_sync rq then q\<lparr>q_in_flight_sync := q_in_flight_sync q + 1\<rparr>
          else q\<lparr>q_in_flight_async := q_in_flight_async q + 1\<rparr>
        else q))"

definition blk_start_request :: "elv_rq \<Rightarrow> 'd rqueue \<Rightarrow> 'd rqueue option" where
  "blk_start_request rq q = map_option (\<lambda>q. q\<lparr>q_started := q_started q @ [rq]\<rparr>) (blk_dequeue_request rq q)"

definition first_look :: "elv_rq \<Rightarrow> 'd rqueue \<Rightarrow> 'd rqueue" where
  "first_look rq q =
     (let q = put_rq (rq\<lparr>er_started := True\<rparr>) q in
      if q_boundary_rq q = None \<or> q_boundary_rq q = Some (er_id rq)
      then q\<lparr>q_end_sector := rq_end_sector rq, q_boundary_rq := None\<rparr> else q)"

partial_function (option) blk_peek_request ::
  "'d elv_ops \<Rightarrow> 'd queue_fns \<Rightarrow> 'd rqueue \<Rightarrow> (elv_rq option \<times> 'd rqueue) option" where
  "blk_peek_request ops F q =
     (case elv_next_request ops F q of
        None \<Rightarrow> None
      | Some (None, q) \<Rightarrow> Some (None, q)
      | Some (Some rq, q) \<Rightarrow>
          (let q = first_look rq q; rq = rq\<lparr>er_started := True\<rparr> in
           if er_dontprep rq then Some (Some rq, q)
           else (case qf_prep_rq_fn F rq of
               (BLKPREP_OK, rq) \<Rightarrow> Some (Some rq, put_rq rq q)
             | (BLKPREP_DEFER, rq) \<Rightarrow> Some (None, put_rq rq q)
             | (BLKPREP_KILL, rq) \<Rightarrow>
                 (case blk_start_request (rq\<lparr>er_quiet := True\<rparr>) q of
                    None \<Rightarrow> None
                  | Some q \<Rightarrow> blk_peek_request ops F (q\<lparr>q_ended := q_ended q @ [rq\<lparr>er_quiet := True\<rparr>]\<rparr>))
             | (BLKPREP_BAD, rq) \<Rightarrow> Some (Some rq, put_rq rq q))))"

definition blk_fetch_request :: "'d elv_ops \<Rightarrow> 'd queue_fns \<Rightarrow> 'd rqueue \<Rightarrow> (elv_rq option \<times> 'd rqueue) option" where
  "blk_fetch_request ops F q =
     do { (rqp, q) \<leftarrow> blk_peek_request ops F q;
          case rqp of
            None \<Rightarrow> Some (None, q)
          | Some rq \<Rightarrow> map_option (Pair (Some rq)) (blk_start_request rq q) }"

section \<open>The noop scheduler\<close>

definition noop_dispatch :: "elv_rq list rqueue \<Rightarrow> bool \<Rightarrow> (bool \<times> elv_rq list rqueue) option" where
  "noop_dispatch q force =
     (case q_data q of
        rq # rqs \<Rightarrow> Some (True, elv_dispatch_sort (q\<lparr>q_data := rqs\<rparr>) rq)
      | [] \<Rightarrow> Some (False, q))"

definition noop_add_request :: "elv_rq list rqueue \<Rightarrow> elv_rq \<Rightarrow> elv_rq list rqueue option" where
  "noop_add_request q rq = Some (q\<lparr>q_data := q_data q @ [rq]\<rparr>)"

definition noop_queue_empty :: "elv_rq list rqueue \<Rightarrow> bool" where
  "noop_queue_empty q \<longleftrightarrow> q_data q = []"

definition elevator_noop :: "elv_rq list elv_ops" where
  "elevator_noop = \<lparr>eo_add_req = noop_add_request, eo_dispatch = noop_dispatch, eo_queue_empty = noop_queue_empty\<rparr>"

section \<open>What the elevator relies on\<close>

text \<open>
  A request without what changes on its way: the mark of the driver and the expiry time. \<open>quiet_core\<close>
  says which fields of a queue a scheduler leaves alone.
\<close>

definition core :: "elv_rq \<Rightarrow> elv_rq" where
  "core rq = rq\<lparr>er_started := False, er_fifo_time := 0\<rparr>"

definition off_hash :: "'d rqueue \<Rightarrow> bool" where
  "off_hash q \<longleftrightarrow> (\<forall>rq\<in>set (q_head q). er_id rq \<notin> set (q_hash q))"

definition quiet_core :: "'d rqueue \<Rightarrow> 'd rqueue \<Rightarrow> bool" where
  "quiet_core q q' \<longleftrightarrow> q_ordseq q' = q_ordseq q \<and> q_pre_flush_rq q' = q_pre_flush_rq q \<and>
     q_post_flush_rq q' = q_post_flush_rq q \<and> q_plugged q' = q_plugged q \<and> q_stopped q' = q_stopped q \<and>
     q_nonrot q' = q_nonrot q \<and> q_reenter q' = q_reenter q \<and> q_started q' = q_started q \<and> q_ended q' = q_ended q \<and>
     (off_hash q \<longrightarrow> off_hash q')"

definition cores :: "elv_rq list \<Rightarrow> elv_rq multiset" where
  "cores rqs = image_mset core (mset rqs)"

lemma cores_simps [simp]:
  "cores [] = {#}" "cores (rq # rqs) = add_mset (core rq) (cores rqs)" "cores (xs @ ys) = cores xs + cores ys"
  "cores (rev xs) = cores xs"
  by (auto simp: cores_def)

lemma core_simps [simp]: "er_id (core rq) = er_id rq" "core (core rq) = core rq"
  "core (rq\<lparr>er_started := b\<rparr>) = core rq" "core (rq\<lparr>er_fifo_time := t\<rparr>) = core rq"
  by (auto simp: core_def)

lemma core_unordered [simp]: "unordered q (core rq) = unordered q rq"
  by (simp add: unordered_def is_barrier_def core_def)

lemma unordered_updates [simp]:
  "unordered (q\<lparr>q_head := rqs\<rparr>) = unordered q" "unordered (q\<lparr>q_end_sector := e\<rparr>) = unordered q"
  "unordered (q\<lparr>q_boundary_rq := b\<rparr>) = unordered q" "unordered (q\<lparr>q_plugged := p\<rparr>) = unordered q"
  "unordered (q\<lparr>q_in_flight_sync := m\<rparr>) = unordered q" "unordered (q\<lparr>q_in_flight_async := m\<rparr>) = unordered q"
  "unordered (q\<lparr>q_started := rqs\<rparr>) = unordered q" "unordered (q\<lparr>q_data := d\<rparr>) = unordered q"
  "unordered (q\<lparr>q_nr_sorted := m\<rparr>) = unordered q"
  by (auto simp: unordered_def fun_eq_iff)

lemma quiet_core_unordered: "quiet_core q q' \<Longrightarrow> unordered q' rq = unordered q rq"
  by (simp add: quiet_core_def unordered_def)

lemma quiet_core_refl [simp]: "quiet_core q q"
  by (simp add: quiet_core_def)

lemma quiet_core_trans: "quiet_core q q' \<Longrightarrow> quiet_core q' q'' \<Longrightarrow> quiet_core q q''"
  by (auto simp: quiet_core_def)

lemma cores_sort_into [simp]: "cores (sort_into b rq rqs) = add_mset (core rq) (cores rqs)"
proof -
  have "cores (takeWhile P xs) + cores (dropWhile P xs) = cores xs" for P xs
    by (metis cores_simps(3) takeWhile_dropWhile_id)
  from this [of "\<lambda>pos. \<not> sort_stops b rq pos" "rev rqs"] show ?thesis
    by (simp add: sort_into_def add.commute)
qed

lemma set_sort_into [simp]: "set (sort_into b rq rqs) = insert rq (set rqs)"
proof -
  have "set (takeWhile P xs) \<union> set (dropWhile P xs) = set xs" for P xs
    by (metis set_append takeWhile_dropWhile_id)
  from this [of "\<lambda>pos. \<not> sort_stops b rq pos" "rev rqs"] show ?thesis
    by (auto simp: sort_into_def)
qed

lemma dispatch_sort_core:
  "quiet_core q (elv_dispatch_sort q rq)" "q_data (elv_dispatch_sort q rq) = q_data q"
  "cores (q_head (elv_dispatch_sort q rq)) = add_mset (core rq) (cores (q_head q))"
  by (auto simp: elv_dispatch_sort_def quiet_core_def forget_merge_def off_hash_def)

lemma dispatch_tail_core:
  "quiet_core q (elv_dispatch_add_tail q rq)" "q_data (elv_dispatch_add_tail q rq) = q_data q"
  "cores (q_head (elv_dispatch_add_tail q rq)) = add_mset (core rq) (cores (q_head q))"
  by (auto simp: elv_dispatch_add_tail_def quiet_core_def forget_merge_def off_hash_def)

text \<open>
  The requests that wait in a queue, and a queue in which the driver can fetch: no request is held back
  by an ordered sequence, every address occurs once, and no request of the dispatch list is in the merge hash.
\<close>

definition queued :: "('d \<Rightarrow> elv_rq multiset) \<Rightarrow> 'd rqueue \<Rightarrow> elv_rq multiset" where
  "queued held q = cores (q_head q) + held (q_data q)"

definition queued_ids :: "('d \<Rightarrow> elv_rq multiset) \<Rightarrow> 'd rqueue \<Rightarrow> nat multiset" where
  "queued_ids held q = image_mset er_id (queued held q)"

text \<open>What the driver has to find in a request: its address, its position and its length.\<close>

definition tag :: "elv_rq \<Rightarrow> nat \<times> u64 \<times> u32" where
  "tag rq = (er_id rq, er_pos rq, er_bytes rq)"

definition queued_tags :: "('d \<Rightarrow> elv_rq multiset) \<Rightarrow> 'd rqueue \<Rightarrow> (nat \<times> u64 \<times> u32) multiset" where
  "queued_tags held q = image_mset tag (queued held q)"

lemma tag_core [simp]: "tag (core rq) = tag rq" "tag (rq\<lparr>er_started := b\<rparr>) = tag rq" "tag (rq\<lparr>er_sorted := b\<rparr>) = tag rq"
    "tag (rq\<lparr>er_ordered_color := b\<rparr>) = tag rq"
  by (simp_all add: tag_def core_def)

lemma tag_id: "tag rq = tag r \<Longrightarrow> er_id rq = er_id r"
  by (simp add: tag_def)

lemma queued_ids_tags: "queued_ids held q = image_mset fst (queued_tags held q)"
  by (simp add: queued_ids_def queued_tags_def multiset.map_comp comp_def tag_def)

definition sound_queue :: "('d \<Rightarrow> elv_rq multiset) \<Rightarrow> ('d \<Rightarrow> bool) \<Rightarrow> 'd rqueue \<Rightarrow> bool" where
  "sound_queue held ok q \<longleftrightarrow> ok (q_data q) \<and> off_hash q \<and>
     (\<forall>i. count (queued_ids held q) i \<le> 1) \<and> (\<forall>rq\<in>#queued held q. unordered q rq)"

definition prepares :: "'d queue_fns \<Rightarrow> bool" where
  "prepares F \<longleftrightarrow> (\<forall>rq. \<exists>rq'. qf_prep_rq_fn F rq = (BLKPREP_OK, rq') \<and> tag rq' = tag rq \<and>
     (is_barrier rq' \<longrightarrow> is_barrier rq) \<and> (er_type rq' = TYPE_FS \<longrightarrow> er_type rq = TYPE_FS))"

fun fetch_n :: "'d elv_ops \<Rightarrow> 'd queue_fns \<Rightarrow> nat \<Rightarrow> 'd rqueue \<Rightarrow> (elv_rq list \<times> 'd rqueue) option" where
  "fetch_n ops F 0 q = Some ([], q)"
| "fetch_n ops F (Suc n) q =
     (case blk_fetch_request ops F q of
        None \<Rightarrow> None
      | Some (None, q) \<Rightarrow> Some ([], q)
      | Some (Some rq, q) \<Rightarrow> map_option (apfst (Cons rq)) (fetch_n ops F n q))"

text \<open>
  One run of the driver: it fetches some requests and may look at the next one without taking it.
  \<open>takes_only\<close> says that its routine does nothing else to the queue.
\<close>

definition driver_takes :: "'d elv_ops \<Rightarrow> 'd queue_fns \<Rightarrow> nat \<Rightarrow> bool \<Rightarrow> 'd rqueue \<Rightarrow> 'd rqueue option" where
  "driver_takes ops F n peek q =
     do { (rqs, q) \<leftarrow> fetch_n ops F n q;
          if peek then map_option snd (blk_peek_request ops F q) else Some q }"

definition takes_only :: "'d elv_ops \<Rightarrow> 'd queue_fns \<Rightarrow> bool" where
  "takes_only ops F \<longleftrightarrow> (\<forall>q. \<exists>n peek. qf_request_fn F q = driver_takes ops F n peek q)"

text \<open>Every request that was ever inserted: handed to the driver, or still waiting.\<close>

definition all_tags :: "('d \<Rightarrow> elv_rq multiset) \<Rightarrow> 'd rqueue \<Rightarrow> (nat \<times> u64 \<times> u32) multiset" where
  "all_tags held q = mset (map tag (q_started q)) + queued_tags held q"

lemma sound_queue_flags [simp]:
  "sound_queue held ok (q\<lparr>q_plugged := b\<rparr>) = sound_queue held ok q"
  "sound_queue held ok (q\<lparr>q_ordcolor := b\<rparr>) = sound_queue held ok q"
  "sound_queue held ok (q\<lparr>q_nr_sorted := n\<rparr>) = sound_queue held ok q"
  "all_tags held (q\<lparr>q_plugged := b\<rparr>) = all_tags held q"
  "all_tags held (q\<lparr>q_ordcolor := b\<rparr>) = all_tags held q"
  by (auto simp: sound_queue_def queued_ids_def queued_def off_hash_def all_tags_def queued_tags_def unordered_def)

definition same_flags :: "'d rqueue \<Rightarrow> 'd rqueue \<Rightarrow> bool" where
  "same_flags q q' \<longleftrightarrow> q_stopped q' = q_stopped q \<and> q_nonrot q' = q_nonrot q \<and> q_plugged q' = q_plugged q \<and>
     q_reenter q' = q_reenter q"

lemma same_flags_refl [simp]: "same_flags q q"
  by (simp add: same_flags_def)

lemma same_flags_trans: "same_flags q q' \<Longrightarrow> same_flags q' q'' \<Longrightarrow> same_flags q q''"
  by (simp add: same_flags_def)

lemma put_rq_head:
  assumes "q_head q = r # t" "er_id rq = er_id r" "er_id r \<notin> er_id ` set t"
  shows "put_rq rq q = q\<lparr>q_head := rq # t\<rparr>"
proof -
  have "map (\<lambda>r. if er_id r = er_id rq then rq else r) t = t"
    using assms(2,3) by (intro map_idI) (auto simp: image_iff)
  then show ?thesis using assms by (simp add: put_rq_def)
qed

lemma first_look_head:
  assumes "q_head q = rq # t" "er_id rq \<notin> er_id ` set t"
  shows "\<exists>b e. first_look rq q = q\<lparr>q_head := rq\<lparr>er_started := True\<rparr> # t, q_end_sector := e, q_boundary_rq := b\<rparr>"
  using put_rq_head [OF assms(1) _ assms(2), of "rq\<lparr>er_started := True\<rparr>"]
  by (cases q) (auto simp: first_look_def Let_def)

lemma start_request_head:
  assumes "q_head q = rq # t" "er_id rq \<notin> er_id ` set t" "er_id rq \<notin> set (q_hash q)"
  shows "\<exists>m n. blk_start_request rq q =
    Some (q\<lparr>q_head := t, q_in_flight_sync := m, q_in_flight_async := n, q_started := q_started q @ [rq]\<rparr>)"
proof -
  have "filter (\<lambda>r. er_id r \<noteq> er_id rq) t = t"
    using assms(2) by (intro filter_True) (auto simp: image_iff)
  then show ?thesis using assms
    by (cases q) (auto simp: blk_start_request_def blk_dequeue_request_def Let_def)
qed

text \<open>
  \<open>held d\<close> are the requests a scheduler holds, \<open>ok d\<close> is its invariant. It takes every new
  request, and as long as it holds one, each call of its dispatch moves at least one to the dispatch
  list; nothing is lost or added.
\<close>

locale io_scheduler =
  fixes ops :: "'d elv_ops" and held :: "'d \<Rightarrow> elv_rq multiset" and ok :: "'d \<Rightarrow> bool"
  assumes add_req: "ok (q_data q) \<Longrightarrow> er_id rq \<notin># image_mset er_id (held (q_data q)) \<Longrightarrow>
      \<exists>q'. eo_add_req ops q rq = Some q' \<and> ok (q_data q') \<and> quiet_core q q' \<and>
        cores (q_head q') + held (q_data q') = add_mset (core rq) (cores (q_head q) + held (q_data q))"
    and dispatch_some: "ok (q_data q) \<Longrightarrow> held (q_data q) \<noteq> {#} \<Longrightarrow>
      \<exists>q'. eo_dispatch ops q force = Some (True, q') \<and> ok (q_data q') \<and> quiet_core q q' \<and>
        size (held (q_data q')) < size (held (q_data q)) \<and>
        cores (q_head q') + held (q_data q') = cores (q_head q) + held (q_data q)"
    and dispatch_none: "ok (q_data q) \<Longrightarrow> held (q_data q) = {#} \<Longrightarrow> eo_dispatch ops q force = Some (False, q)"
    and empty_iff: "ok (q_data q) \<Longrightarrow> eo_queue_empty ops q \<longleftrightarrow> held (q_data q) = {#}"
begin

lemma drains:
  "ok (q_data q) \<Longrightarrow> \<exists>q'. elv_drain_elevator ops q = Some q' \<and> ok (q_data q') \<and> quiet_core q q' \<and>
     held (q_data q') = {#} \<and> queued held q' = queued held q"
proof (induction "size (held (q_data q))" arbitrary: q rule: less_induct)
  case less
  show ?case
  proof (cases "held (q_data q) = {#}")
    case True
    then show ?thesis using less.prems dispatch_none by (subst elv_drain_elevator.simps) simp
  next
    case False
    then obtain q1 where q1: "eo_dispatch ops q True = Some (True, q1)" "ok (q_data q1)" "quiet_core q q1"
        "size (held (q_data q1)) < size (held (q_data q))" "queued held q1 = queued held q"
      using dispatch_some [OF less.prems] unfolding queued_def by blast
    then show ?thesis
      using less.hyps [OF q1(4,2)] quiet_core_trans by (subst elv_drain_elevator.simps) fastforce
  qed
qed

lemma next_none:
  "ok (q_data q) \<Longrightarrow> queued held q = {#} \<Longrightarrow> elv_next_request ops F q = Some (None, q)"
  using dispatch_none by (subst elv_next_request.simps) (auto simp: queued_def cores_def)

lemma next_some:
  "ok (q_data q) \<Longrightarrow> \<forall>rq\<in>#queued held q. unordered q rq \<Longrightarrow> queued held q \<noteq> {#} \<Longrightarrow>
     \<exists>rq t q'. elv_next_request ops F q = Some (Some rq, q') \<and> q_head q' = rq # t \<and> ok (q_data q') \<and>
       quiet_core q q' \<and> queued held q' = queued held q"
proof (induction "size (held (q_data q))" arbitrary: q rule: less_induct)
  case less
  show ?case
  proof (cases "q_head q")
    case (Cons rq t)
    then have "unordered q rq" using less.prems(2) by (simp add: queued_def)
    then show ?thesis
      using less.prems Cons by (subst elv_next_request.simps) (simp add: unordered_passes)
  next
    case Nil
    then have "held (q_data q) \<noteq> {#}" using less.prems(3) by (simp add: queued_def)
    then obtain q1 where q1: "eo_dispatch ops q False = Some (True, q1)" "ok (q_data q1)" "quiet_core q q1"
        "size (held (q_data q1)) < size (held (q_data q))" "queued held q1 = queued held q"
      using dispatch_some [OF less.prems(1)] unfolding queued_def by blast
    moreover have "unordered q1 = unordered q" using quiet_core_unordered [OF q1(3)] by (intro ext)
    ultimately show ?thesis
      using less.hyps [OF q1(4,2)] less.prems Nil quiet_core_trans
      by (subst elv_next_request.simps) fastforce
  qed
qed

lemma peeks:
  assumes sound: "sound_queue held ok q" and prep: "prepares F" and some: "queued held q \<noteq> {#}"
  shows "\<exists>rq t q'. blk_peek_request ops F q = Some (Some rq, q') \<and> q_head q' = rq # t \<and>
    sound_queue held ok q' \<and> same_flags q q' \<and> queued_tags held q' = queued_tags held q \<and> q_started q' = q_started q \<and>
    (\<exists>r q1. elv_next_request ops F q = Some (Some r, q1) \<and> tag rq = tag r \<and> t = tl (q_head q1) \<and> q_data q' = q_data q1)"
proof -
  obtain r t q1 where q1: "elv_next_request ops F q = Some (Some r, q1)" "q_head q1 = r # t" "ok (q_data q1)"
      "quiet_core q q1" "queued held q1 = queued held q"
    using next_some [of q F] sound some by (auto simp: sound_queue_def)
  have ids: "queued_ids held q = add_mset (er_id r) (image_mset er_id (cores t + held (q_data q1)))"
    unfolding queued_ids_def q1(5) [symmetric] by (simp add: queued_def q1(2))
  then have "count (image_mset er_id (cores t + held (q_data q1))) (er_id r) = 0"
    using sound by (auto simp: sound_queue_def dest: spec [of _ "er_id r"])
  then have fresh: "er_id r \<notin> er_id ` set t"
    by (auto simp: cores_def count_eq_zero_iff image_image multiset.set_map)
  obtain b e where look: "first_look r q1 =
      q1\<lparr>q_head := r\<lparr>er_started := True\<rparr> # t, q_end_sector := e, q_boundary_rq := b\<rparr>"
    using first_look_head [OF q1(2) fresh] by blast
  obtain r2 where r2: "qf_prep_rq_fn F (r\<lparr>er_started := True\<rparr>) = (BLKPREP_OK, r2)" "tag r2 = tag r"
      "is_barrier r2 \<Longrightarrow> is_barrier r" "er_type r2 = TYPE_FS \<Longrightarrow> er_type r = TYPE_FS"
    using prep [unfolded prepares_def, rule_format, of "r\<lparr>er_started := True\<rparr>"] by (auto simp: is_barrier_def)
  define rq where "rq = (if er_dontprep r then r\<lparr>er_started := True\<rparr> else r2)"
  have tag: "tag rq = tag r" using r2 by (auto simp: rq_def)
  then have id: "er_id rq = er_id r" by (rule tag_id)
  have pass: "unordered q rq" if "unordered q r"
    using that r2 tag_id [OF r2(2)] by (auto simp: rq_def unordered_def is_barrier_def split: if_splits)
  define q' where "q' = q1\<lparr>q_head := rq # t, q_end_sector := e, q_boundary_rq := b\<rparr>"
  have "put_rq rq (first_look r q1) = q'"
    using put_rq_head [of "first_look r q1" "r\<lparr>er_started := True\<rparr>" t rq] id fresh by (simp add: look q'_def)
  then have peek: "blk_peek_request ops F q = Some (Some rq, q')"
    using q1(1) r2(1) by (subst blk_peek_request.simps) (cases "er_dontprep r"; simp add: rq_def Let_def look q'_def)
  have "queued_tags held q = queued_tags held q1" by (simp add: queued_tags_def q1(5))
  then have same: "queued_tags held q' = queued_tags held q"
    by (simp add: queued_tags_def queued_def q'_def q1(2) tag)
  then have same_ids: "queued_ids held q' = queued_ids held q" by (simp add: queued_ids_tags)
  have order: "unordered q' = unordered q"
    using quiet_core_unordered [OF q1(4)] by (intro ext) (simp add: q'_def)
  have "\<forall>x\<in>#queued held q'. unordered q x"
    using sound pass unfolding sound_queue_def q1(5) [symmetric] by (auto simp: queued_def q'_def q1(2))
  moreover have "ok (q_data q')" "off_hash q'"
    using sound q1 id by (auto simp: sound_queue_def q'_def quiet_core_def off_hash_def)
  ultimately have "sound_queue held ok q'"
    using sound same_ids unfolding sound_queue_def order by simp
  then show ?thesis
    using peek q1(1,2,4) same tag by (auto simp: q'_def same_flags_def quiet_core_def)
qed

lemma fetches:
  assumes sound: "sound_queue held ok q" and prep: "prepares F" and some: "queued held q \<noteq> {#}"
  shows "\<exists>rq q'. blk_fetch_request ops F q = Some (Some rq, q') \<and> sound_queue held ok q' \<and> same_flags q q' \<and>
    queued_tags held q = add_mset (tag rq) (queued_tags held q') \<and> q_started q' = q_started q @ [rq] \<and>
    (\<exists>r q1. elv_next_request ops F q = Some (Some r, q1) \<and> tag rq = tag r \<and>
      q_head q' = tl (q_head q1) \<and> q_data q' = q_data q1)"
proof -
  obtain rq t q1 r q2 where q1: "blk_peek_request ops F q = Some (Some rq, q1)" "q_head q1 = rq # t"
      "sound_queue held ok q1" "same_flags q q1" "queued_tags held q1 = queued_tags held q" "q_started q1 = q_started q"
    and q2: "elv_next_request ops F q = Some (Some r, q2)" "tag rq = tag r" "t = tl (q_head q2)" "q_data q1 = q_data q2"
    using peeks [OF assms] by blast
  have ids: "queued_ids held q1 = add_mset (er_id rq) (image_mset er_id (cores t + held (q_data q1)))"
    by (simp add: queued_ids_def queued_def q1(2))
  then have "count (image_mset er_id (cores t + held (q_data q1))) (er_id rq) = 0"
    using q1(3) by (auto simp: sound_queue_def dest: spec [of _ "er_id rq"])
  then have fresh: "er_id rq \<notin> er_id ` set t"
    by (auto simp: cores_def count_eq_zero_iff image_image multiset.set_map)
  have hash: "er_id rq \<notin> set (q_hash q1)" using q1(2,3) by (auto simp: sound_queue_def off_hash_def)
  obtain m n where "blk_start_request rq q1 =
      Some (q1\<lparr>q_head := t, q_in_flight_sync := m, q_in_flight_async := n, q_started := q_started q1 @ [rq]\<rparr>)"
    using start_request_head [OF q1(2) fresh hash] by blast
  moreover define q' where "q' = q1\<lparr>q_head := t, q_in_flight_sync := m, q_in_flight_async := n, q_started := q_started q1 @ [rq]\<rparr>"
  ultimately have "blk_fetch_request ops F q = Some (Some rq, q')"
    using q1(1) by (simp add: blk_fetch_request_def)
  moreover have sub: "queued held q1 = add_mset (core rq) (queued held q')"
    by (simp add: queued_def q'_def q1(2))
  have "sound_queue held ok q'"
    unfolding sound_queue_def
  proof (intro conjI allI ballI)
    show "off_hash q'"
      using q1(2,3) by (auto simp: q'_def off_hash_def sound_queue_def)
    show "count (queued_ids held q') i \<le> 1" for i
    proof -
      have "count (queued_ids held q') i \<le> count (queued_ids held q1) i"
        unfolding queued_ids_def sub by simp
      then show ?thesis using q1(3) le_trans unfolding sound_queue_def by blast
    qed
  qed (use q1(3) sub in \<open>auto simp: sound_queue_def q'_def\<close>)
  with calculation show ?thesis
    using q1(4-6) q2 sub by (auto simp: q'_def same_flags_def queued_tags_def)
qed

lemma fetches_n:
  assumes "sound_queue held ok q" and prep: "prepares F"
  shows "\<exists>rqs q'. fetch_n ops F n q = Some (rqs, q') \<and> sound_queue held ok q' \<and> same_flags q q' \<and>
    queued_tags held q = mset (map tag rqs) + queued_tags held q' \<and> q_started q' = q_started q @ rqs \<and>
    length rqs = min n (size (queued held q))"
  using assms(1)
proof (induction n arbitrary: q)
  case (Suc n)
  show ?case
  proof (cases "queued held q = {#}")
    case True
    then have "blk_peek_request ops F q = Some (None, q)"
      using next_none [of q F] Suc.prems by (subst blk_peek_request.simps) (simp add: sound_queue_def)
    then show ?thesis using True Suc.prems by (simp add: blk_fetch_request_def)
  next
    case False
    then obtain rq q1 where q1: "blk_fetch_request ops F q = Some (Some rq, q1)" "sound_queue held ok q1" "same_flags q q1"
        "queued_tags held q = add_mset (tag rq) (queued_tags held q1)" "q_started q1 = q_started q @ [rq]"
      using fetches [OF Suc.prems prep] by blast
    have "size (queued_tags held q) = Suc (size (queued_tags held q1))" using q1(4) by simp
    then have "size (queued held q) = Suc (size (queued held q1))" by (simp add: queued_tags_def)
    then show ?thesis using Suc.IH [OF q1(2)] q1 same_flags_trans by fastforce
  qed
qed simp

lemma takes:
  assumes "sound_queue held ok q" "prepares F"
  shows "\<exists>q'. driver_takes ops F n peek q = Some q' \<and> sound_queue held ok q' \<and> all_tags held q' = all_tags held q"
proof -
  obtain rqs q1 where q1: "fetch_n ops F n q = Some (rqs, q1)" "sound_queue held ok q1"
      "queued_tags held q = mset (map tag rqs) + queued_tags held q1" "q_started q1 = q_started q @ rqs"
    using fetches_n [OF assms, of n] by blast
  have same: "all_tags held q1 = all_tags held q" using q1(3,4) by (simp add: all_tags_def)
  show ?thesis
  proof (cases "queued held q1 = {#}")
    case True
    then have "blk_peek_request ops F q1 = Some (None, q1)"
      using next_none [of q1 F] q1(2) by (subst blk_peek_request.simps) (simp add: sound_queue_def)
    then show ?thesis using q1 same by (simp add: driver_takes_def)
  next
    case False
    then show ?thesis using q1 same peeks [OF q1(2) assms(2)] by (auto simp: driver_takes_def all_tags_def)
  qed
qed

lemma unplugs:
  assumes "sound_queue held ok q" "prepares F" "takes_only ops F"
  shows "\<exists>q'. generic_unplug_device F q = Some q' \<and> sound_queue held ok q' \<and> all_tags held q' = all_tags held q"
proof -
  obtain n peek where "qf_request_fn F (q\<lparr>q_plugged := False\<rparr>) = driver_takes ops F n peek (q\<lparr>q_plugged := False\<rparr>)"
    using assms(3) unfolding takes_only_def by blast
  then show ?thesis
    using takes [of "q\<lparr>q_plugged := False\<rparr>" F n peek] assms(1,2)
    by (auto simp: generic_unplug_device_def blk_remove_plug_def)
qed

lemma enters:
  assumes sound: "sound_queue held ok q" and new: "er_id rq \<notin># queued_ids held q" and plain: "unordered q rq"
  shows "\<exists>q'. enter_sorted ops q rq = Some q' \<and> sound_queue held ok q' \<and>
    all_tags held q' = add_mset (tag rq) (all_tags held q)"
proof -
  let ?q = "q\<lparr>q_nr_sorted := q_nr_sorted q + 1\<rparr>" and ?rq = "rq\<lparr>er_sorted := True\<rparr>"
  have "er_id ?rq \<notin># image_mset er_id (held (q_data ?q))"
    using new by (auto simp: queued_ids_def queued_def)
  then obtain q' where q': "eo_add_req ops ?q ?rq = Some q'" "ok (q_data q')" "quiet_core ?q q'"
      "queued held q' = add_mset (core ?rq) (queued held q)"
    using add_req [of ?q ?rq] sound by (auto simp: sound_queue_def queued_def)
  have ids: "queued_ids held q' = add_mset (er_id rq) (queued_ids held q)"
      "queued_tags held q' = add_mset (tag rq) (queued_tags held q)"
    using q'(4) by (simp_all add: queued_ids_def queued_tags_def)
  have "unordered q ?rq" using plain by (simp add: unordered_def is_barrier_def split: if_splits)
  moreover have "unordered q' x = unordered q x" for x using quiet_core_unordered [OF q'(3)] by simp
  ultimately have "\<forall>x\<in>#queued held q'. unordered q' x"
    using q'(4) sound by (simp add: sound_queue_def)
  moreover have "count (queued_ids held q') i \<le> 1" for i
    using sound new unfolding ids sound_queue_def by (auto simp: not_in_iff)
  ultimately have "sound_queue held ok q'"
    using sound q'(2,3) by (auto simp: sound_queue_def quiet_core_def off_hash_def)
  then show ?thesis
    using q'(1,3) ids by (auto simp: enter_sorted_def all_tags_def quiet_core_def)
qed

lemma executes:
  assumes sound: "sound_queue held ok q" and F: "prepares F" "takes_only ops F"
    and rq: "er_id rq \<notin># queued_ids held q" "er_type rq = TYPE_BLOCK_PC" "\<not> er_discard rq"
      "\<not> er_softbarrier rq" "\<not> er_hardbarrier rq" "er_id rq \<noteq> q_pre_flush_rq q" "er_id rq \<noteq> q_post_flush_rq q"
  shows "\<exists>q'. blk_execute_scsi_nowait ops F q rq = Some q' \<and> sound_queue held ok q' \<and>
    all_tags held q' = add_mset (tag rq) (all_tags held q)"
proof -
  let ?rq = "if q_ordcolor q then rq\<lparr>er_ordered_color := True\<rparr> else rq"
  let ?q = "blk_plug_device q"
  have rq': "unordered ?q ?rq" "er_id ?rq = er_id rq"
    using rq(2,6,7) by (auto simp: is_barrier_def unordered_def blk_plug_device_def)
  have q0: "sound_queue held ok ?q" "all_tags held ?q = all_tags held q" "queued_ids held ?q = queued_ids held q"
    using sound by (auto simp: blk_plug_device_def queued_ids_def queued_def)
  have add: "elv_add_request ops F q rq ELEVATOR_INSERT_VERIFY True = elv_insert ops F ?q ?rq ELEVATOR_INSERT_VERIFY"
    using rq(2-5) by (cases q) (simp add: elv_add_request_def Let_def insert_points)
  obtain q1 where q1: "enter_sorted ops ?q ?rq = Some q1" "sound_queue held ok q1"
      "all_tags held q1 = add_mset (tag rq) (all_tags held q)"
    using enters [OF q0(1), of ?rq] rq'(1) rq(1) q0(2,3) by (auto simp: rq'(2))
  obtain q2 where q2: "elv_insert ops F ?q ?rq ELEVATOR_INSERT_VERIFY = Some q2" "sound_queue held ok q2"
      "all_tags held q2 = all_tags held q1"
    using unplugs [OF q1(2) F] q1
    by (cases "q_plugged q1 \<and> q_unplug_thresh q1 \<le> waiting_requests q1")
      (auto simp: elv_insert_def insert_at_def insert_points)
  show ?thesis using unplugs [OF q2(2) F] q1 q2 by (auto simp: blk_execute_scsi_nowait_def add)
qed

text \<open>Fetching as often as there are requests waiting hands all of them to the driver.\<close>

lemma fetches_all:
  assumes "sound_queue held ok q" "prepares F"
  shows "\<exists>rqs q'. fetch_n ops F (size (queued held q)) q = Some (rqs, q') \<and> queued held q' = {#} \<and>
    mset (map tag (q_started q')) = all_tags held q"
proof -
  obtain rqs q' where q': "fetch_n ops F (size (queued held q)) q = Some (rqs, q')"
      "queued_tags held q = mset (map tag rqs) + queued_tags held q'" "q_started q' = q_started q @ rqs"
      "length rqs = size (queued held q)"
    using fetches_n [OF assms, of "size (queued held q)"] by auto
  have "size (queued_tags held q) = length rqs + size (queued_tags held q')" using q'(2) by simp
  then have "queued held q' = {#}" using q'(4) by (simp add: queued_tags_def)
  then show ?thesis using q' by (auto simp: all_tags_def queued_tags_def)
qed

end

interpretation noop: io_scheduler elevator_noop cores "\<lambda>_. True"
proof unfold_locales
  fix q :: "elv_rq list rqueue" and force
  assume "cores (q_data q) \<noteq> {#}"
  then obtain rq rqs where d: "q_data q = rq # rqs" by (cases "q_data q") auto
  show "\<exists>q'. eo_dispatch elevator_noop q force = Some (True, q') \<and> True \<and> quiet_core q q' \<and>
      size (cores (q_data q')) < size (cores (q_data q)) \<and>
      cores (q_head q') + cores (q_data q') = cores (q_head q) + cores (q_data q)"
    using d dispatch_sort_core [of "q\<lparr>q_data := rqs\<rparr>" rq]
    by (auto simp: elevator_noop_def noop_dispatch_def quiet_core_def off_hash_def)
qed (auto simp: elevator_noop_def noop_add_request_def noop_queue_empty_def noop_dispatch_def quiet_core_def
    off_hash_def cores_def)

text \<open>With an empty dispatch list the noop scheduler hands its requests over in the order of their arrival.\<close>

lemma noop_next:
  assumes "q_head q = []" "q_data q = rq # rqs" "unordered q rq"
  shows "elv_next_request elevator_noop F q = Some (Some rq, elv_dispatch_sort (q\<lparr>q_data := rqs\<rparr>) rq)"
proof -
  let ?q = "elv_dispatch_sort (q\<lparr>q_data := rqs\<rparr>) rq"
  have "unordered ?q rq" using assms(3) by (simp add: unordered_def elv_dispatch_sort_def forget_merge_def)
  then have "elv_next_request elevator_noop F ?q = Some (Some rq, ?q)"
    using assms(1) unordered_passes [of ?q rq F]
    by (subst elv_next_request.simps) (simp add: elv_dispatch_sort_def sort_into_def)
  then show ?thesis
    using assms(1,2) by (subst elv_next_request.simps) (simp add: elevator_noop_def noop_dispatch_def)
qed

lemma noop_fetch_order:
  assumes "prepares F"
  shows "sound_queue cores (\<lambda>_. True) q \<Longrightarrow> q_head q = [] \<Longrightarrow>
    \<exists>rqs q'. fetch_n elevator_noop F (length (q_data q)) q = Some (rqs, q') \<and> map tag rqs = map tag (q_data q)"
proof (induction "q_data q" arbitrary: q)
  case Nil
  then show ?case by simp
next
  case (Cons r rs)
  have r: "q_data q = r # rs" "unordered q r"
    using Cons.hyps(2) [symmetric] Cons.prems(1) by (auto simp: sound_queue_def queued_def)
  have "queued cores q \<noteq> {#}" by (simp add: queued_def r(1))
  then obtain rq q' r' q1 where q': "blk_fetch_request elevator_noop F q = Some (Some rq, q')"
      "sound_queue cores (\<lambda>_. True) q'" "elv_next_request elevator_noop F q = Some (Some r', q1)"
      "tag rq = tag r'" "q_head q' = tl (q_head q1)" "q_data q' = q_data q1"
    using noop.fetches [OF Cons.prems(1) assms] by blast
  have "r' = r" "q1 = elv_dispatch_sort (q\<lparr>q_data := rs\<rparr>) r"
    using q'(3) noop_next [OF Cons.prems(2) r, of F] by auto
  then have q1: "tag rq = tag r" "q_head q' = []" "q_data q' = rs"
    using q'(4-6) Cons.prems(2) by (simp_all add: elv_dispatch_sort_def sort_into_def forget_merge_def)
  obtain rqs q2 where "fetch_n elevator_noop F (length rs) q' = Some (rqs, q2)" "map tag rqs = map tag rs"
    using Cons.hyps(1) [of q'] q'(2) q1(2,3) by auto
  then show ?case using q'(1) q1(1) r(1) by simp
qed


text \<open>
  A request of the scrubber, a queue in the middle of an ordered sequence in which nothing else waits,
  and a driver that is busy when it is called.
\<close>

definition scrub_rq :: "nat \<Rightarrow> u64 \<Rightarrow> elv_rq" where
  "scrub_rq i pos = \<lparr>er_id = i, er_type = TYPE_BLOCK_PC, er_pos = pos, er_bytes = 0, er_write = False,
     er_rw_sync = False, er_discard = False, er_sorted = False, er_softbarrier = False, er_hardbarrier = False,
     er_started = False, er_nomerge = False, er_dontprep = False, er_quiet = False, er_elvpriv = True,
     er_ordered_color = False, er_fifo_time = 0\<rparr>"

definition idle_queue :: "'d \<Rightarrow> 'd rqueue" where
  "idle_queue d = \<lparr>q_head = [], q_nr_sorted = 0, q_end_sector = 0, q_boundary_rq = None, q_last_merge = None,
     q_hash = [], q_plugged = False, q_stopped = False, q_nonrot = False, q_reenter = False, q_ordcolor = False,
     q_ordseq = 3, q_ordered = 1, q_orig_bar_color = False, q_pre_flush_rq = 97, q_bar_rq = 98, q_post_flush_rq = 99,
     q_rq_count = 1, q_in_flight_sync = 0, q_in_flight_async = 0, q_unplug_thresh = 4,
     q_started = [], q_ended = [], q_data = d\<rparr>"

definition busy_driver :: "'d queue_fns" where
  "busy_driver = \<lparr>qf_request_fn = Some, qf_prep_rq_fn = Pair BLKPREP_OK, qf_start_ordered = (\<lambda>_ _. None)\<rparr>"

lemma busy_driver_takes [simp]: "prepares busy_driver" "takes_only ops busy_driver"
proof -
  have "qf_request_fn busy_driver q = driver_takes ops busy_driver 0 False q" for q
    by (simp add: busy_driver_def driver_takes_def)
  then show "takes_only ops busy_driver" unfolding takes_only_def by blast
qed (simp add: prepares_def busy_driver_def)


end
