(* ===== verification/Rbtree.thy ===== *)
theory Rbtree
  imports Main "HOL-Library.Monad_Syntax"
begin

text \<open>
  The red-black trees of \<^verbatim>\<open>lib/rbtree.c\<close>, in which the deadline scheduler sorts its requests. A tree
  is a value instead of nodes with parent pointers: the parents of a node are the list of frames
  around it, innermost first, so that going up to \<open>rb_parent\<close> is taking the next frame. Recolouring
  and rotating a node are the operations of the code, applied to the subtree at the node. \<open>None\<close> is
  a null pointer that is followed.
\<close>

section \<open>Trees, rotations and frames\<close>

datatype rb_color = RB_RED | RB_BLACK

lemma not_red [simp]: "c \<noteq> RB_RED \<longleftrightarrow> c = RB_BLACK"
  by (cases c) auto

datatype 'a rb_tree = Rb_NULL | Rb rb_color "'a rb_tree" 'a "'a rb_tree"

datatype 'a rb_frame = Left_of rb_color 'a "'a rb_tree" | Right_of rb_color 'a "'a rb_tree"

fun rb_is_red :: "'a rb_tree \<Rightarrow> bool" where
  "rb_is_red Rb_NULL = False"
| "rb_is_red (Rb c l x r) \<longleftrightarrow> c = RB_RED"

fun rb_set_color :: "rb_color \<Rightarrow> 'a rb_tree \<Rightarrow> 'a rb_tree" where
  "rb_set_color c Rb_NULL = Rb_NULL"
| "rb_set_color c (Rb d l x r) = Rb c l x r"

abbreviation rb_set_black :: "'a rb_tree \<Rightarrow> 'a rb_tree" where
  "rb_set_black \<equiv> rb_set_color RB_BLACK"

fun rb_rotate_left :: "'a rb_tree \<Rightarrow> 'a rb_tree option" where
  "rb_rotate_left (Rb c l x (Rb d a y b)) = Some (Rb d (Rb c l x a) y b)"
| "rb_rotate_left t = None"

fun rb_rotate_right :: "'a rb_tree \<Rightarrow> 'a rb_tree option" where
  "rb_rotate_right (Rb c (Rb d a y b) x r) = Some (Rb d a y (Rb c b x r))"
| "rb_rotate_right t = None"

fun rb_plug :: "'a rb_tree \<Rightarrow> 'a rb_frame \<Rightarrow> 'a rb_tree" where
  "rb_plug t (Left_of c x r) = Rb c t x r"
| "rb_plug t (Right_of c x l) = Rb c l x t"

fun rb_zip :: "'a rb_tree \<Rightarrow> 'a rb_frame list \<Rightarrow> 'a rb_tree" where
  "rb_zip t [] = t"
| "rb_zip t (f # fs) = rb_zip (rb_plug t f) fs"

fun frame_red :: "'a rb_frame \<Rightarrow> bool" where
  "frame_red (Left_of c x r) \<longleftrightarrow> c = RB_RED"
| "frame_red (Right_of c x l) \<longleftrightarrow> c = RB_RED"

fun is_left :: "'a rb_frame \<Rightarrow> bool" where
  "is_left (Left_of c x r) = True"
| "is_left (Right_of c x l) = False"

section \<open>Insertion\<close>

fun insert_loop :: "'a rb_tree \<Rightarrow> 'a rb_frame list \<Rightarrow> 'a rb_tree option" where
  "insert_loop node [] = Some node"
| "insert_loop node [f] = (if frame_red f then None else Some (rb_plug node f))"
| "insert_loop node (f # Left_of c g uncle # fs) =
     (if \<not> frame_red f then Some (rb_zip node (f # Left_of c g uncle # fs))
      else if rb_is_red uncle then
        insert_loop (Rb RB_RED (rb_set_black (rb_plug node f)) g (rb_set_black uncle)) fs
      else do {
        parent \<leftarrow> (if is_left f then Some (rb_plug node f) else rb_rotate_left (rb_plug node f));
        t \<leftarrow> rb_rotate_right (Rb RB_RED (rb_set_black parent) g uncle);
        Some (rb_zip t fs) })"
| "insert_loop node (f # Right_of c g uncle # fs) =
     (if \<not> frame_red f then Some (rb_zip node (f # Right_of c g uncle # fs))
      else if rb_is_red uncle then
        insert_loop (Rb RB_RED (rb_set_black uncle) g (rb_set_black (rb_plug node f))) fs
      else do {
        parent \<leftarrow> (if is_left f then rb_rotate_right (rb_plug node f) else Some (rb_plug node f));
        t \<leftarrow> rb_rotate_left (Rb RB_RED uncle g (rb_set_black parent));
        Some (rb_zip t fs) })"

definition rb_insert_color :: "'a rb_tree \<Rightarrow> 'a rb_frame list \<Rightarrow> 'a rb_tree option" where
  "rb_insert_color node fs = map_option rb_set_black (insert_loop node fs)"

text \<open>\<open>rb_link_node\<close> hangs a new red node below the frames.\<close>

definition rb_link_node :: "'a \<Rightarrow> 'a rb_tree" where
  "rb_link_node x = Rb RB_RED Rb_NULL x Rb_NULL"

section \<open>Erasing\<close>

datatype 'a erase_next = Erase_done "'a rb_tree" | Erase_up "'a rb_tree" "'a rb_frame list"

definition erase_left :: "'a rb_tree \<Rightarrow> rb_color \<Rightarrow> 'a \<Rightarrow> 'a rb_tree \<Rightarrow> 'a rb_frame list \<Rightarrow> 'a erase_next option" where
  "erase_left node c p other fs =
     (case other of
        Rb_NULL \<Rightarrow> None
      | Rb d ol x r \<Rightarrow>
          if \<not> rb_is_red ol \<and> \<not> rb_is_red r then
            Some (Erase_up (Rb c node p (rb_set_color RB_RED other)) fs)
          else do {
            other \<leftarrow> (if \<not> rb_is_red r then rb_rotate_right (Rb RB_RED (rb_set_black ol) x r) else Some other);
            case other of
              Rb_NULL \<Rightarrow> None
            | Rb d ol x r \<Rightarrow> do {
                t \<leftarrow> rb_rotate_left (Rb RB_BLACK node p (Rb c ol x (rb_set_black r)));
                Some (Erase_done (rb_zip t fs)) } })"

definition erase_right :: "'a rb_tree \<Rightarrow> rb_color \<Rightarrow> 'a \<Rightarrow> 'a rb_tree \<Rightarrow> 'a rb_frame list \<Rightarrow> 'a erase_next option" where
  "erase_right node c p other fs =
     (case other of
        Rb_NULL \<Rightarrow> None
      | Rb d l x r \<Rightarrow>
          if \<not> rb_is_red l \<and> \<not> rb_is_red r then
            Some (Erase_up (Rb c (rb_set_color RB_RED other) p node) fs)
          else do {
            other \<leftarrow> (if \<not> rb_is_red l then rb_rotate_left (Rb RB_RED l x (rb_set_black r)) else Some other);
            case other of
              Rb_NULL \<Rightarrow> None
            | Rb d l x r \<Rightarrow> do {
                t \<leftarrow> rb_rotate_right (Rb RB_BLACK (Rb c (rb_set_black l) x r) p node);
                Some (Erase_done (rb_zip t fs)) } })"

fun erase_turn :: "'a rb_tree \<Rightarrow> 'a rb_frame \<Rightarrow> 'a rb_frame list \<Rightarrow> 'a erase_next option" where
  "erase_turn node (Left_of c p (Rb RB_RED l x r)) fs = erase_left node RB_RED p l (Left_of RB_BLACK x r # fs)"
| "erase_turn node (Left_of c p other) fs = erase_left node c p other fs"
| "erase_turn node (Right_of c p (Rb RB_RED l x r)) fs = erase_right node RB_RED p r (Right_of RB_BLACK x l # fs)"
| "erase_turn node (Right_of c p other) fs = erase_right node c p other fs"

lemma erase_left_up: "erase_left node c p other fs = Some (Erase_up t gs) \<Longrightarrow> gs = fs \<and> (rb_is_red t \<longleftrightarrow> c = RB_RED)"
  by (auto simp: erase_left_def split: rb_tree.splits if_splits bind_splits)

lemma erase_right_up: "erase_right node c p other fs = Some (Erase_up t gs) \<Longrightarrow> gs = fs \<and> (rb_is_red t \<longleftrightarrow> c = RB_RED)"
  by (auto simp: erase_right_def split: rb_tree.splits if_splits bind_splits)

lemma erase_turn_up:
  "erase_turn node f fs = Some (Erase_up t gs) \<Longrightarrow> length gs = length fs \<or> length gs = Suc (length fs) \<and> rb_is_red t"
  by (cases "(node, f, fs)" rule: erase_turn.cases) (auto dest: erase_left_up erase_right_up)

function rb_erase_color :: "'a rb_tree \<Rightarrow> 'a rb_frame list \<Rightarrow> 'a rb_tree option" where
  "rb_erase_color node fs =
     (case fs of
        [] \<Rightarrow> Some (rb_set_black node)
      | f # fs' \<Rightarrow>
          if rb_is_red node then Some (rb_zip (rb_set_black node) fs)
          else (case erase_turn node f fs' of
              None \<Rightarrow> None
            | Some (Erase_done t) \<Rightarrow> Some (rb_set_black t)
            | Some (Erase_up t gs) \<Rightarrow> rb_erase_color t gs))"
  by pat_completeness auto
termination
  by (relation "measure (\<lambda>(node, fs). 2 * length fs + (if rb_is_red node then 0 else 1))")
    (auto dest!: erase_turn_up)

lemma erase_color_simps:
  "rb_erase_color node [] = Some (rb_set_black node)"
  "rb_erase_color node (f # fs) =
     (if rb_is_red node then Some (rb_zip (rb_set_black node) (f # fs))
      else (case erase_turn node f fs of
          None \<Rightarrow> None
        | Some (Erase_done t) \<Rightarrow> Some (rb_set_black t)
        | Some (Erase_up t gs) \<Rightarrow> rb_erase_color t gs))"
  by auto

declare rb_erase_color.simps [simp del]

text \<open>The leftmost node below a node, with its frames.\<close>

fun rb_leftmost :: "'a rb_tree \<Rightarrow> 'a rb_frame list \<Rightarrow> (rb_color \<times> 'a \<times> 'a rb_tree \<times> 'a rb_frame list) option" where
  "rb_leftmost Rb_NULL fs = None"
| "rb_leftmost (Rb c Rb_NULL x r) fs = Some (c, x, r, fs)"
| "rb_leftmost (Rb c l x r) fs = rb_leftmost l (Left_of c x r # fs)"

definition unlink :: "rb_color \<Rightarrow> 'a rb_tree \<Rightarrow> 'a rb_frame list \<Rightarrow> 'a rb_tree option" where
  "unlink c child fs = (if c = RB_BLACK then rb_erase_color child fs else Some (rb_zip child fs))"

fun rb_erase :: "'a rb_tree \<Rightarrow> 'a rb_frame list \<Rightarrow> 'a rb_tree option" where
  "rb_erase Rb_NULL fs = None"
| "rb_erase (Rb c l x r) fs =
     (if l = Rb_NULL then unlink c r fs
      else if r = Rb_NULL then unlink c l fs
      else (case rb_leftmost r [] of
          None \<Rightarrow> None
        | Some (d, y, child, gs) \<Rightarrow> unlink d child (gs @ Right_of c y l # fs)))"

section \<open>Walking\<close>

fun rb_first :: "'a rb_tree \<Rightarrow> 'a option" where
  "rb_first Rb_NULL = None"
| "rb_first (Rb c Rb_NULL x r) = Some x"
| "rb_first (Rb c l x r) = rb_first l"

fun rb_up_next :: "'a rb_frame list \<Rightarrow> 'a option" where
  "rb_up_next [] = None"
| "rb_up_next (Right_of c x l # fs) = rb_up_next fs"
| "rb_up_next (Left_of c x r # fs) = Some x"

fun rb_next :: "'a rb_tree \<Rightarrow> 'a rb_frame list \<Rightarrow> 'a option" where
  "rb_next Rb_NULL fs = None"
| "rb_next (Rb c l x r) fs = (if r \<noteq> Rb_NULL then rb_first r else rb_up_next fs)"

section \<open>The order of the nodes\<close>

fun inorder :: "'a rb_tree \<Rightarrow> 'a list" where
  "inorder Rb_NULL = []"
| "inorder (Rb c l x r) = inorder l @ x # inorder r"

fun before :: "'a rb_frame list \<Rightarrow> 'a list" where
  "before [] = []"
| "before (Left_of c x r # fs) = before fs"
| "before (Right_of c x l # fs) = before fs @ inorder l @ [x]"

fun after :: "'a rb_frame list \<Rightarrow> 'a list" where
  "after [] = []"
| "after (Left_of c x r # fs) = x # inorder r @ after fs"
| "after (Right_of c x l # fs) = after fs"

lemma inorder_set_color [simp]: "inorder (rb_set_color c t) = inorder t"
  by (cases t) auto

lemma inorder_zip [simp]: "inorder (rb_zip t fs) = before fs @ inorder t @ after fs"
proof (induction fs arbitrary: t)
  case (Cons f fs)
  then show ?case by (cases f) auto
qed simp

lemma before_after_append [simp]:
  "before (fs @ gs) = before gs @ before fs" "after (fs @ gs) = after fs @ after gs"
proof (induction fs)
  case (Cons f fs)
  case 1
  show ?case using Cons by (cases f) auto
next
  case (Cons f fs)
  case 2
  show ?case using Cons by (cases f) auto
qed auto

lemma inorder_rotate_left: "rb_rotate_left t = Some u \<Longrightarrow> inorder u = inorder t"
  by (cases t rule: rb_rotate_left.cases) auto

lemma inorder_rotate_right: "rb_rotate_right t = Some u \<Longrightarrow> inorder u = inorder t"
  by (cases t rule: rb_rotate_right.cases) auto

lemmas inorder_rotates = inorder_rotate_left inorder_rotate_right

lemma inorder_insert_loop:
  "insert_loop node fs = Some t \<Longrightarrow> inorder t = before fs @ inorder node @ after fs"
proof (induction node fs arbitrary: t rule: insert_loop.induct)
  case (2 node f)
  then show ?case by (cases f) (auto split: if_splits)
next
  case (3 node f c g uncle fs)
  then show ?case
    by (cases f) (auto split: if_splits bind_splits dest!: inorder_rotates)
next
  case (4 node f c g uncle fs)
  then show ?case
    by (cases f) (auto split: if_splits bind_splits dest!: inorder_rotates)
qed simp

lemma inorder_insert_color:
  "rb_insert_color node fs = Some t \<Longrightarrow> inorder t = before fs @ inorder node @ after fs"
  using inorder_insert_loop by (fastforce simp: rb_insert_color_def)

fun next_order :: "'a erase_next \<Rightarrow> 'a list" where
  "next_order (Erase_done t) = inorder t"
| "next_order (Erase_up t fs) = before fs @ inorder t @ after fs"

lemma inorder_erase_left:
  "erase_left node c p other fs = Some e \<Longrightarrow> next_order e = before fs @ inorder node @ p # inorder other @ after fs"
  by (auto simp: erase_left_def split: rb_tree.splits if_splits bind_splits dest!: inorder_rotates)

lemma inorder_erase_right:
  "erase_right node c p other fs = Some e \<Longrightarrow> next_order e = before fs @ inorder other @ p # inorder node @ after fs"
  by (auto simp: erase_right_def split: rb_tree.splits if_splits bind_splits dest!: inorder_rotates)

lemma inorder_erase_turn:
  "erase_turn node f fs = Some e \<Longrightarrow> next_order e = before (f # fs) @ inorder node @ after (f # fs)"
  by (cases "(node, f, fs)" rule: erase_turn.cases) (auto dest!: inorder_erase_left inorder_erase_right)

lemma inorder_erase_color:
  "rb_erase_color node fs = Some t \<Longrightarrow> inorder t = before fs @ inorder node @ after fs"
proof (induction node fs arbitrary: t rule: rb_erase_color.induct)
  case (1 node fs)
  show ?case
  proof (cases fs)
    case Nil
    then show ?thesis using 1(2) by (auto simp: rb_erase_color.simps)
  next
    case (Cons f gs)
    show ?thesis
    proof (cases "rb_is_red node")
      case True
      then have "t = rb_zip (rb_set_black node) fs"
        using 1(2) Cons by (subst (asm) rb_erase_color.simps) auto
      then show ?thesis by simp
    next
      case False
      then obtain e where e: "erase_turn node f gs = Some e"
        using 1(2) Cons by (subst (asm) rb_erase_color.simps) (auto split: option.splits)
      then show ?thesis
        using 1 Cons False inorder_erase_turn [OF e]
        by (cases e) (auto simp: erase_color_simps)
    qed
  qed
qed

lemma leftmost_order:
  "rb_leftmost t fs = Some (c, x, r, gs) \<Longrightarrow>
     before gs @ [x] @ inorder r @ after gs = before fs @ inorder t @ after fs"
  by (induction t fs arbitrary: c x r gs rule: rb_leftmost.induct) auto

lemma inorder_unlink: "unlink c child fs = Some t \<Longrightarrow> inorder t = before fs @ inorder child @ after fs"
  using inorder_erase_color by (auto simp: unlink_def split: if_splits)

lemma leftmost_frames: "rb_leftmost t fs = Some (c, x, r, gs) \<Longrightarrow> before gs = before fs"
  by (induction t fs arbitrary: c x r gs rule: rb_leftmost.induct) auto

lemma inorder_erase:
  "rb_erase (Rb c l x r) fs = Some t \<Longrightarrow> inorder t = before fs @ inorder l @ inorder r @ after fs"
  using leftmost_order [of r "[]"] leftmost_frames [of r "[]"]
  by (fastforce split: if_splits option.splits dest!: inorder_unlink)

fun head_of :: "'a list \<Rightarrow> 'a option" where
  "head_of [] = None"
| "head_of (x # xs) = Some x"

lemma head_of_append: "head_of (xs @ ys) = (if xs = [] then head_of ys else head_of xs)"
  by (cases xs) auto

lemma rb_first_hd: "rb_first t = head_of (inorder t)"
  by (induction t rule: rb_first.induct) (auto simp: head_of_append)

lemma rb_up_next_hd: "rb_up_next fs = head_of (after fs)"
  by (induction fs rule: rb_up_next.induct) auto

lemma rb_next_order: "rb_next (Rb c l x r) fs = head_of (inorder r @ after fs)"
  by (cases r) (auto simp: rb_first_hd rb_up_next_hd head_of_append)

section \<open>Balance\<close>

fun no_red_red :: "'a rb_tree \<Rightarrow> bool" where
  "no_red_red Rb_NULL = True"
| "no_red_red (Rb c l x r) \<longleftrightarrow>
     no_red_red l \<and> no_red_red r \<and> (c = RB_RED \<longrightarrow> \<not> rb_is_red l \<and> \<not> rb_is_red r)"

definition weight :: "rb_color \<Rightarrow> nat" where
  "weight c = (if c = RB_BLACK then 1 else 0)"

lemma weight_simps [simp]: "weight RB_BLACK = 1" "weight RB_RED = 0"
  by (simp_all add: weight_def)

fun black_height :: "'a rb_tree \<Rightarrow> nat" where
  "black_height Rb_NULL = 0"
| "black_height (Rb c l x r) = black_height l + weight c"

fun balanced :: "'a rb_tree \<Rightarrow> bool" where
  "balanced Rb_NULL = True"
| "balanced (Rb c l x r) \<longleftrightarrow> balanced l \<and> balanced r \<and> black_height l = black_height r"

definition rb_valid :: "'a rb_tree \<Rightarrow> bool" where
  "rb_valid t \<longleftrightarrow> \<not> rb_is_red t \<and> no_red_red t \<and> balanced t"

text \<open>What frames ask of the tree they are put around: its black height, and whether it is red.\<close>

fun fits_height :: "nat \<Rightarrow> 'a rb_frame list \<Rightarrow> bool" where
  "fits_height n [] = True"
| "fits_height n (Left_of c x r # fs) \<longleftrightarrow> balanced r \<and> black_height r = n \<and> fits_height (n + weight c) fs"
| "fits_height n (Right_of c x l # fs) \<longleftrightarrow> balanced l \<and> black_height l = n \<and> fits_height (n + weight c) fs"

fun fits_color :: "bool \<Rightarrow> 'a rb_frame list \<Rightarrow> bool" where
  "fits_color red [] = True"
| "fits_color red (Left_of c x r # fs) \<longleftrightarrow>
     no_red_red r \<and> (c = RB_RED \<longrightarrow> \<not> red \<and> \<not> rb_is_red r) \<and> fits_color (c = RB_RED) fs"
| "fits_color red (Right_of c x l # fs) \<longleftrightarrow>
     no_red_red l \<and> (c = RB_RED \<longrightarrow> \<not> red \<and> \<not> rb_is_red l) \<and> fits_color (c = RB_RED) fs"

definition root_black :: "'a rb_frame list \<Rightarrow> bool" where
  "root_black fs \<longleftrightarrow> fs = [] \<or> \<not> frame_red (last fs)"

lemma root_black_simps [simp]:
  "root_black []" "root_black [f] \<longleftrightarrow> \<not> frame_red f" "root_black (f # g # fs) \<longleftrightarrow> root_black (g # fs)"
  by (auto simp: root_black_def)

lemma root_black_Cons: "root_black (f # fs) \<Longrightarrow> root_black fs"
  by (cases fs) auto

lemma balanced_zip: "balanced (rb_zip t fs) \<longleftrightarrow> balanced t \<and> fits_height (black_height t) fs"
proof (induction fs arbitrary: t)
  case (Cons f fs)
  then show ?case by (cases f) auto
qed simp

lemma no_red_red_zip: "no_red_red (rb_zip t fs) \<longleftrightarrow> no_red_red t \<and> fits_color (rb_is_red t) fs"
proof (induction fs arbitrary: t)
  case (Cons f fs)
  then show ?case by (cases f) auto
qed simp

lemma red_zip: "rb_is_red (rb_zip t fs) \<longleftrightarrow> (if fs = [] then rb_is_red t else frame_red (last fs))"
proof (induction fs arbitrary: t)
  case (Cons f fs)
  then show ?case by (cases f) auto
qed simp

lemma fits_color_weaken: "fits_color red fs \<Longrightarrow> fits_color False fs"
proof (cases fs)
  case (Cons f gs)
  then show "fits_color red fs \<Longrightarrow> fits_color False fs" by (cases f) auto
qed simp

lemma fits_color_black: "fits_color False (f # fs) \<Longrightarrow> \<not> frame_red f \<Longrightarrow> fits_color red (f # fs)"
  by (cases f) auto

lemma set_black_simps [simp]:
  "balanced (rb_set_color c t) \<longleftrightarrow> balanced t" "\<not> rb_is_red (rb_set_black t)"
  "no_red_red t \<Longrightarrow> no_red_red (rb_set_black t)"
  "\<not> rb_is_red t \<Longrightarrow> rb_set_black t = t"
  "rb_is_red t \<Longrightarrow> black_height (rb_set_black t) = Suc (black_height t)"
  by (cases t; auto)+

lemma insert_loop_valid:
  "rb_is_red node \<Longrightarrow> no_red_red node \<Longrightarrow> balanced node \<Longrightarrow> fits_height (black_height node) fs \<Longrightarrow>
     fits_color False fs \<Longrightarrow> root_black fs \<Longrightarrow> \<exists>t. insert_loop node fs = Some t \<and> no_red_red t \<and> balanced t"
proof (induction node fs rule: insert_loop.induct)
  case (2 node f)
  then show ?case by (cases f) auto
next
  case (3 node f c g uncle fs)
  note IH = 3(1) and prems = 3(2-7)
  have rest: "fits_color False fs" "root_black fs"
    using prems(5,6) fits_color_weaken by (cases f; auto intro: root_black_Cons)+
  obtain a x b where node: "node = Rb RB_RED a x b" using prems(1) by (cases node) auto
  consider (ready) "\<not> frame_red f" | (uncle) "frame_red f" "rb_is_red uncle" | (rotate) "frame_red f" "\<not> rb_is_red uncle"
    by blast
  then show ?case
  proof cases
    case ready
    then show ?thesis
      using prems fits_color_black [of f "Left_of c g uncle # fs" True]
      by (simp del: rb_zip.simps fits_height.simps fits_color.simps add: balanced_zip no_red_red_zip)
  next
    case uncle
    then show ?thesis using IH prems rest by (cases f) auto
  next
    case rotate
    then show ?thesis using prems rest node by (cases f) (auto simp: balanced_zip no_red_red_zip)
  qed
next
  case (4 node f c g uncle fs)
  note IH = 4(1) and prems = 4(2-7)
  have rest: "fits_color False fs" "root_black fs"
    using prems(5,6) fits_color_weaken by (cases f; auto intro: root_black_Cons)+
  obtain a x b where node: "node = Rb RB_RED a x b" using prems(1) by (cases node) auto
  consider (ready) "\<not> frame_red f" | (uncle) "frame_red f" "rb_is_red uncle" | (rotate) "frame_red f" "\<not> rb_is_red uncle"
    by blast
  then show ?case
  proof cases
    case ready
    then show ?thesis
      using prems fits_color_black [of f "Right_of c g uncle # fs" True]
      by (simp del: rb_zip.simps fits_height.simps fits_color.simps add: balanced_zip no_red_red_zip)
  next
    case uncle
    then show ?thesis using IH prems rest by (cases f) auto
  next
    case rotate
    then show ?thesis using prems rest node by (cases f) (auto simp: balanced_zip no_red_red_zip)
  qed
qed auto

lemma rb_insert_color_valid:
  assumes "fits_height 0 fs" "fits_color False fs" "root_black fs"
  shows "\<exists>t. rb_insert_color (rb_link_node x) fs = Some t \<and> rb_valid t"
  using insert_loop_valid [of "rb_link_node x" fs] assms
  by (auto simp: rb_link_node_def rb_insert_color_def rb_valid_def)

lemma red_iff: "rb_is_red t \<longleftrightarrow> (\<exists>l x r. t = Rb RB_RED l x r)"
  by (cases t) auto

text \<open>
  While a node is erased the subtree at the hand is one black node short; its root may be red below
  a red parent until it is coloured black.
\<close>

definition short_by_one :: "'a rb_tree \<Rightarrow> 'a rb_frame list \<Rightarrow> bool" where
  "short_by_one node fs \<longleftrightarrow> balanced node \<and> no_red_red (rb_set_black node) \<and>
     fits_height (Suc (black_height node)) fs \<and> fits_color False fs \<and> root_black fs"

fun next_ok :: "'a erase_next \<Rightarrow> bool" where
  "next_ok (Erase_done t) \<longleftrightarrow> balanced t \<and> no_red_red t"
| "next_ok (Erase_up t fs) \<longleftrightarrow> short_by_one t fs"

lemma erase_left_ok:
  assumes "balanced node" "no_red_red node" "\<not> rb_is_red node"
    and "balanced other" "no_red_red other" "\<not> rb_is_red other" "black_height other = Suc (black_height node)"
    and fs: "fits_height (Suc (black_height node) + weight c) fs" "fits_color (c = RB_RED) fs" "root_black fs"
  shows "\<exists>e. erase_left node c p other fs = Some e \<and> next_ok e"
proof -
  obtain l x r where other: "other = Rb RB_BLACK l x r" using assms(6,7) by (cases other) auto
  note weak = fits_color_weaken [OF fs(2)]
  consider "\<not> rb_is_red l" "\<not> rb_is_red r" | "rb_is_red r" | "rb_is_red l" "\<not> rb_is_red r"
    by blast
  then show ?thesis
    using assms weak unfolding other
    by cases (auto simp: erase_left_def short_by_one_def balanced_zip no_red_red_zip red_iff)
qed

lemma erase_right_ok:
  assumes "balanced node" "no_red_red node" "\<not> rb_is_red node"
    and "balanced other" "no_red_red other" "\<not> rb_is_red other" "black_height other = Suc (black_height node)"
    and fs: "fits_height (Suc (black_height node) + weight c) fs" "fits_color (c = RB_RED) fs" "root_black fs"
  shows "\<exists>e. erase_right node c p other fs = Some e \<and> next_ok e"
proof -
  obtain l x r where other: "other = Rb RB_BLACK l x r" using assms(6,7) by (cases other) auto
  note weak = fits_color_weaken [OF fs(2)]
  consider "\<not> rb_is_red l" "\<not> rb_is_red r" | "rb_is_red l" | "rb_is_red r" "\<not> rb_is_red l"
    by blast
  then show ?thesis
    using assms weak unfolding other
    by cases (auto simp: erase_right_def short_by_one_def balanced_zip no_red_red_zip red_iff)
qed

lemma root_black_extend: "root_black (f # fs) \<Longrightarrow> \<not> frame_red g \<Longrightarrow> root_black (g # fs)"
  by (cases fs) auto

lemma erase_turn_ok:
  assumes short: "short_by_one node (f # fs)" and black: "\<not> rb_is_red node"
  shows "\<exists>e. erase_turn node f fs = Some e \<and> next_ok e"
proof -
  have node: "balanced node" "no_red_red node" using short black by (auto simp: short_by_one_def)
  have root: "root_black fs" "\<And>x t. root_black (Left_of RB_BLACK x t # fs)" "\<And>x t. root_black (Right_of RB_BLACK x t # fs)"
    using short root_black_extend root_black_Cons by (fastforce simp: short_by_one_def)+
  show ?thesis
  proof (cases f)
    case (Left_of c p other)
    show ?thesis
    proof (cases "rb_is_red other")
      case True
      then obtain l x r where "other = Rb RB_RED l x r" by (auto simp: red_iff)
      then show ?thesis
        using erase_left_ok [OF node black, of l RB_RED "Left_of RB_BLACK x r # fs" p] short Left_of root
        by (auto simp: short_by_one_def)
    next
      case False
      then have "erase_turn node f fs = erase_left node c p other fs"
        using Left_of by (cases other) auto
      then show ?thesis
        using erase_left_ok [OF node black _ _ False, of c fs p] short Left_of root
        by (auto simp: short_by_one_def)
    qed
  next
    case (Right_of c p other)
    show ?thesis
    proof (cases "rb_is_red other")
      case True
      then obtain l x r where "other = Rb RB_RED l x r" by (auto simp: red_iff)
      then show ?thesis
        using erase_right_ok [OF node black, of r RB_RED "Right_of RB_BLACK x l # fs" p] short Right_of root
        by (auto simp: short_by_one_def)
    next
      case False
      then have "erase_turn node f fs = erase_right node c p other fs"
        using Right_of by (cases other) auto
      then show ?thesis
        using erase_right_ok [OF node black _ _ False, of c fs p] short Right_of root
        by (auto simp: short_by_one_def)
    qed
  qed
qed

lemma rb_erase_color_valid: "short_by_one node fs \<Longrightarrow> \<exists>t. rb_erase_color node fs = Some t \<and> rb_valid t"
proof (induction node fs rule: rb_erase_color.induct)
  case (1 node fs)
  show ?case
  proof (cases fs)
    case Nil
    then show ?thesis using 1(2) by (auto simp: erase_color_simps short_by_one_def rb_valid_def)
  next
    case (Cons f gs)
    show ?thesis
    proof (cases "rb_is_red node")
      case True
      then show ?thesis
        using 1(2) Cons
        by (auto simp: erase_color_simps short_by_one_def rb_valid_def balanced_zip no_red_red_zip red_zip
            root_black_def simp del: rb_zip.simps fits_height.simps fits_color.simps)
    next
      case False
      then obtain e where e: "erase_turn node f gs = Some e" "next_ok e"
        using erase_turn_ok 1(2) Cons by blast
      show ?thesis
      proof (cases e)
        case (Erase_done t)
        then show ?thesis using e Cons False by (auto simp: erase_color_simps rb_valid_def)
      next
        case (Erase_up t hs)
        then show ?thesis using 1(1) [OF Cons False e(1)] e Cons False by (simp add: erase_color_simps)
      qed
    qed
  qed
qed

lemma unlink_valid:
  assumes "rb_valid (rb_zip (Rb c l x r) fs)" "l = Rb_NULL \<and> child = r \<or> r = Rb_NULL \<and> child = l"
  shows "\<exists>t. unlink c child fs = Some t \<and> rb_valid t"
proof (cases c)
  case RB_RED
  then have "fs \<noteq> []" using assms(1) by (auto simp: rb_valid_def)
  then show ?thesis
    using assms RB_RED
    by (auto simp: unlink_def rb_valid_def balanced_zip no_red_red_zip red_zip intro: fits_color_weaken)
next
  case RB_BLACK
  have "root_black fs" using assms(1) by (auto simp: rb_valid_def red_zip root_black_def)
  then have "short_by_one child fs"
    using assms RB_BLACK by (auto simp: short_by_one_def rb_valid_def balanced_zip no_red_red_zip)
  then show ?thesis using RB_BLACK rb_erase_color_valid by (auto simp: unlink_def)
qed

lemma zip_append: "rb_zip t (fs @ gs) = rb_zip (rb_zip t fs) gs"
  by (induction fs arbitrary: t) auto

lemma leftmost_zip: "rb_leftmost t fs = Some (c, x, r, gs) \<Longrightarrow> rb_zip t fs = rb_zip (Rb c Rb_NULL x r) gs"
  by (induction t fs arbitrary: c x r gs rule: rb_leftmost.induct) auto

lemma leftmost_some: "t \<noteq> Rb_NULL \<Longrightarrow> \<exists>c x r gs. rb_leftmost t fs = Some (c, x, r, gs)"
  by (induction t fs rule: rb_leftmost.induct) auto

text \<open>The place of an element does not matter for the shape of a tree.\<close>

lemma valid_element:
  "rb_valid (rb_zip (Rb c l x t) fs) \<longleftrightarrow> rb_valid (rb_zip (Rb c l y t) fs)"
  by (auto simp: rb_valid_def balanced_zip no_red_red_zip red_zip)

lemma rb_erase_valid:
  assumes "rb_valid (rb_zip (Rb c l x r) fs)"
  shows "\<exists>t. rb_erase (Rb c l x r) fs = Some t \<and> rb_valid t"
proof (cases "l = Rb_NULL \<or> r = Rb_NULL")
  case True
  then show ?thesis using unlink_valid [OF assms] by auto
next
  case False
  then obtain d y child gs where m: "rb_leftmost r [] = Some (d, y, child, gs)"
    using leftmost_some by blast
  have "rb_zip (Rb d Rb_NULL y child) (gs @ Right_of c y l # fs) = rb_zip (Rb c l y r) fs"
    using leftmost_zip [OF m] by (simp add: zip_append)
  then show ?thesis
    using unlink_valid [of d Rb_NULL y child "gs @ Right_of c y l # fs"] assms valid_element [of c l x r fs y] m False
    by auto
qed

section \<open>Depth\<close>

fun rb_depth :: "'a rb_tree \<Rightarrow> nat" where
  "rb_depth Rb_NULL = 0"
| "rb_depth (Rb c l x r) = Suc (max (rb_depth l) (rb_depth r))"

lemma depth_le: "no_red_red t \<Longrightarrow> balanced t \<Longrightarrow> rb_depth t \<le> 2 * black_height t + (if rb_is_red t then 1 else 0)"
proof (induction t)
  case (Rb c l x r)
  then show ?case by (cases c) (auto split: if_splits)
qed simp

lemma black_height_size: "balanced t \<Longrightarrow> 2 ^ black_height t \<le> Suc (length (inorder t))"
proof (induction t)
  case (Rb c l x r)
  then have "2 ^ black_height l \<le> Suc (length (inorder l))" "2 ^ black_height l \<le> Suc (length (inorder r))" by auto
  then show ?case by (cases c) auto
qed simp

lemma rb_valid_depth: "rb_valid t \<Longrightarrow> \<exists>h. rb_depth t \<le> 2 * h \<and> 2 ^ h \<le> Suc (length (inorder t))"
  using depth_le [of t] black_height_size [of t] by (auto simp: rb_valid_def)

end
