(* ===== verification/Deadline.thy ===== *)
theory Deadline
  imports Elevator Rbtree
begin

text \<open>
  The deadline scheduler \<^verbatim>\<open>block/deadline-iosched.c\<close> and the functions of \<^verbatim>\<open>block/elevator.c\<close> that
  sort requests in a red-black tree. The requests of a direction (\<open>False\<close> reads, \<open>True\<close> writes) are in
  its tree; the fifo list and the next request name them by their address. The current time is
  the parameter \<open>jiffies\<close>. Merging and the sysfs attributes of the scheduler are not part of it.
\<close>

section \<open>Requests in a tree\<close>

fun rb_descend :: "u64 \<Rightarrow> elv_rq rb_tree \<Rightarrow> elv_rq rb_frame list \<Rightarrow> elv_rq + elv_rq rb_frame list" where
  "rb_descend pos Rb_NULL fs = Inr fs"
| "rb_descend pos (Rb c l x r) fs =
     (if pos < er_pos x then rb_descend pos l (Left_of c x r # fs)
      else if pos > er_pos x then rb_descend pos r (Right_of c x l # fs)
      else Inl x)"

definition elv_rb_add :: "elv_rq rb_tree \<Rightarrow> elv_rq \<Rightarrow> (elv_rq + elv_rq rb_tree) option" where
  "elv_rb_add root rq =
     (case rb_descend (er_pos rq) root [] of
        Inl alias \<Rightarrow> Some (Inl alias)
      | Inr fs \<Rightarrow> map_option Inr (rb_insert_color (rb_link_node rq) fs))"

text \<open>The node of a request, which the code has at hand in the request itself.\<close>

fun rb_node_of :: "nat \<Rightarrow> elv_rq rb_tree \<Rightarrow> elv_rq rb_frame list \<Rightarrow> (elv_rq rb_tree \<times> elv_rq rb_frame list) option" where
  "rb_node_of i Rb_NULL fs = None"
| "rb_node_of i (Rb c l x r) fs =
     (if er_id x = i then Some (Rb c l x r, fs)
      else case rb_node_of i l (Left_of c x r # fs) of
        Some n \<Rightarrow> Some n
      | None \<Rightarrow> rb_node_of i r (Right_of c x l # fs))"

definition elv_rb_del :: "elv_rq rb_tree \<Rightarrow> elv_rq \<Rightarrow> elv_rq rb_tree option" where
  "elv_rb_del root rq = do { (node, fs) \<leftarrow> rb_node_of (er_id rq) root []; rb_erase node fs }"

fun elv_rb_find :: "elv_rq rb_tree \<Rightarrow> u64 \<Rightarrow> elv_rq option" where
  "elv_rb_find Rb_NULL sector = None"
| "elv_rb_find (Rb c l x r) sector =
     (if sector < er_pos x then elv_rb_find l sector
      else if sector > er_pos x then elv_rb_find r sector
      else Some x)"

definition rq_latter :: "elv_rq rb_tree \<Rightarrow> elv_rq \<Rightarrow> elv_rq option" where
  "rq_latter root rq = do { (node, fs) \<leftarrow> rb_node_of (er_id rq) root []; rb_next node fs }"

section \<open>The scheduler\<close>

record deadline_data =
  dd_sort_list :: "bool \<Rightarrow> elv_rq rb_tree"
  dd_fifo_list :: "bool \<Rightarrow> nat list"
  dd_next_rq :: "bool \<Rightarrow> nat option"
  dd_batching :: u32
  dd_last_sector :: u64
  dd_starved :: u32
  dd_fifo_expire :: "bool \<Rightarrow> int"
  dd_fifo_batch :: int
  dd_writes_starved :: int
  dd_front_merges :: int

definition deadline_latter_request :: "deadline_data \<Rightarrow> elv_rq \<Rightarrow> nat option" where
  "deadline_latter_request dd rq = map_option er_id (rq_latter (dd_sort_list dd (er_write rq)) rq)"

definition deadline_del_rq_rb :: "deadline_data \<Rightarrow> elv_rq \<Rightarrow> deadline_data option" where
  "deadline_del_rq_rb dd rq =
     (let dir = er_write rq;
          dd = (if dd_next_rq dd dir = Some (er_id rq)
                then dd\<lparr>dd_next_rq := (dd_next_rq dd)(dir := deadline_latter_request dd rq)\<rparr> else dd)
      in map_option (\<lambda>t. dd\<lparr>dd_sort_list := (dd_sort_list dd)(dir := t)\<rparr>) (elv_rb_del (dd_sort_list dd dir) rq))"

definition deadline_remove_request :: "deadline_data \<Rightarrow> elv_rq \<Rightarrow> deadline_data option" where
  "deadline_remove_request dd rq =
     deadline_del_rq_rb (dd\<lparr>dd_fifo_list := (dd_fifo_list dd)
       (er_write rq := removeAll (er_id rq) (dd_fifo_list dd (er_write rq)))\<rparr>) rq"

definition deadline_move_to_dispatch :: "deadline_data rqueue \<Rightarrow> elv_rq \<Rightarrow> deadline_data rqueue option" where
  "deadline_move_to_dispatch q rq =
     map_option (\<lambda>dd. elv_dispatch_add_tail (q\<lparr>q_data := dd\<rparr>) rq) (deadline_remove_request (q_data q) rq)"

definition deadline_move_request :: "deadline_data rqueue \<Rightarrow> elv_rq \<Rightarrow> deadline_data rqueue option" where
  "deadline_move_request q rq =
     (let dd = q_data q in
      deadline_move_to_dispatch (q\<lparr>q_data := dd\<lparr>
        dd_next_rq := (\<lambda>_. None)(er_write rq := deadline_latter_request dd rq),
        dd_last_sector := rq_end_sector rq\<rparr>\<rparr>) rq)"

partial_function (option) deadline_add_rq_rb :: "deadline_data rqueue \<Rightarrow> elv_rq \<Rightarrow> deadline_data rqueue option" where
  "deadline_add_rq_rb q rq =
     (case elv_rb_add (dd_sort_list (q_data q) (er_write rq)) rq of
        None \<Rightarrow> None
      | Some (Inl alias) \<Rightarrow>
          (case deadline_move_request q alias of None \<Rightarrow> None | Some q \<Rightarrow> deadline_add_rq_rb q rq)
      | Some (Inr t) \<Rightarrow>
          Some (q\<lparr>q_data := (q_data q)\<lparr>dd_sort_list := (dd_sort_list (q_data q))(er_write rq := t)\<rparr>\<rparr>))"

definition deadline_add_request :: "u64 \<Rightarrow> deadline_data rqueue \<Rightarrow> elv_rq \<Rightarrow> deadline_data rqueue option" where
  "deadline_add_request jiffies q rq =
     (let dir = er_write rq; rq = rq\<lparr>er_fifo_time := jiffies + of_int (dd_fifo_expire (q_data q) dir)\<rparr> in
      map_option (\<lambda>q. q\<lparr>q_data := (q_data q)\<lparr>dd_fifo_list := (dd_fifo_list (q_data q))
        (dir := dd_fifo_list (q_data q) dir @ [er_id rq])\<rparr>\<rparr>) (deadline_add_rq_rb q rq))"

fun rb_element :: "elv_rq rb_tree \<Rightarrow> elv_rq option" where
  "rb_element Rb_NULL = None"
| "rb_element (Rb c l x r) = Some x"

text \<open>The request at an address, in the tree of its direction.\<close>

definition rq_at :: "deadline_data \<Rightarrow> bool \<Rightarrow> nat \<Rightarrow> elv_rq option" where
  "rq_at dd dir i = do { (node, fs) \<leftarrow> rb_node_of i (dd_sort_list dd dir) []; rb_element node }"

definition deadline_check_fifo :: "u64 \<Rightarrow> elv_rq \<Rightarrow> bool" where
  "deadline_check_fifo jiffies rq \<longleftrightarrow> sint (er_fifo_time rq - jiffies) < 0"

definition dispatch_request :: "deadline_data rqueue \<Rightarrow> bool \<Rightarrow> nat \<Rightarrow> (bool \<times> deadline_data rqueue) option" where
  "dispatch_request q dir i =
     do { rq \<leftarrow> rq_at (q_data q) dir i;
          q \<leftarrow> deadline_move_request (q\<lparr>q_data := (q_data q)\<lparr>dd_batching := dd_batching (q_data q) + 1\<rparr>\<rparr>) rq;
          Some (True, q) }"

definition dispatch_find_request :: "u64 \<Rightarrow> deadline_data rqueue \<Rightarrow> bool \<Rightarrow> (bool \<times> deadline_data rqueue) option" where
  "dispatch_find_request jiffies q dir =
     (let dd = q_data q in
      case dd_fifo_list dd dir of
        [] \<Rightarrow> None
      | first # rest \<Rightarrow>
          do { rq \<leftarrow> rq_at dd dir first;
               dispatch_request (q\<lparr>q_data := dd\<lparr>dd_batching := 0\<rparr>\<rparr>) dir
                 (if deadline_check_fifo jiffies rq then first
                  else case dd_next_rq dd dir of None \<Rightarrow> first | Some i \<Rightarrow> i) })"

definition dispatch_writes :: "u64 \<Rightarrow> deadline_data rqueue \<Rightarrow> (bool \<times> deadline_data rqueue) option" where
  "dispatch_writes jiffies q =
     (if dd_sort_list (q_data q) True = Rb_NULL then None
      else dispatch_find_request jiffies (q\<lparr>q_data := (q_data q)\<lparr>dd_starved := 0\<rparr>\<rparr>) True)"

definition deadline_select :: "u64 \<Rightarrow> deadline_data rqueue \<Rightarrow> (bool \<times> deadline_data rqueue) option" where
  "deadline_select jiffies q =
     (let dd = q_data q; writes = dd_fifo_list dd True \<noteq> [] in
      if dd_fifo_list dd False \<noteq> [] then
        if dd_sort_list dd False = Rb_NULL then None
        else if writes then
          let q = q\<lparr>q_data := dd\<lparr>dd_starved := dd_starved dd + 1\<rparr>\<rparr> in
          if dd_starved dd \<ge> of_int (dd_writes_starved dd) then dispatch_writes jiffies q
          else dispatch_find_request jiffies q False
        else dispatch_find_request jiffies q False
      else if writes then dispatch_writes jiffies q
      else Some (False, q))"

definition deadline_dispatch_requests :: "u64 \<Rightarrow> deadline_data rqueue \<Rightarrow> bool \<Rightarrow> (bool \<times> deadline_data rqueue) option" where
  "deadline_dispatch_requests jiffies q force =
     (let dd = q_data q; batch = dd_batching dd < of_int (dd_fifo_batch dd) in
      case dd_next_rq dd True of
        Some i \<Rightarrow> if batch then dispatch_request q True i else deadline_select jiffies q
      | None \<Rightarrow>
          (case dd_next_rq dd False of
             Some i \<Rightarrow> if batch then dispatch_request q False i else deadline_select jiffies q
           | None \<Rightarrow> deadline_select jiffies q))"

definition deadline_queue_empty :: "deadline_data rqueue \<Rightarrow> bool" where
  "deadline_queue_empty q \<longleftrightarrow> dd_fifo_list (q_data q) True = [] \<and> dd_fifo_list (q_data q) False = []"

text \<open>\<open>hz\<close> is the number of jiffies in a second.\<close>

definition deadline_init_queue :: "int \<Rightarrow> deadline_data" where
  "deadline_init_queue hz = \<lparr>dd_sort_list = (\<lambda>_. Rb_NULL), dd_fifo_list = (\<lambda>_. []), dd_next_rq = (\<lambda>_. None),
     dd_batching = 0, dd_last_sector = 0, dd_starved = 0,
     dd_fifo_expire = (\<lambda>dir. if dir then 5 * hz else hz div 2),
     dd_fifo_batch = 16, dd_writes_starved = 2, dd_front_merges = 1\<rparr>"

definition iosched_deadline :: "u64 \<Rightarrow> deadline_data elv_ops" where
  "iosched_deadline jiffies = \<lparr>eo_add_req = deadline_add_request jiffies,
     eo_dispatch = deadline_dispatch_requests jiffies, eo_queue_empty = deadline_queue_empty\<rparr>"

section \<open>The tree operations keep an ordered tree\<close>

definition by_position :: "elv_rq rb_tree \<Rightarrow> bool" where
  "by_position t \<longleftrightarrow> sorted_wrt (<) (map er_pos (inorder t))"

lemma node_of_zip:
  "rb_node_of i t fs = Some (n, gs) \<Longrightarrow>
     rb_zip n gs = rb_zip t fs \<and> (\<exists>c l x r. n = Rb c l x r \<and> er_id x = i)"
proof (induction i t fs rule: rb_node_of.induct)
  case (2 i c l x r fs)
  then show ?case by (auto split: if_splits option.splits)
qed simp

lemma node_of_exists: "i \<in> er_id ` set (inorder t) \<Longrightarrow> \<exists>n gs. rb_node_of i t fs = Some (n, gs)"
proof (induction i t fs rule: rb_node_of.induct)
  case (2 i c l x r fs)
  then show ?case by (auto split: option.splits)
qed simp

lemma node_of_order:
  assumes "x \<in> set (inorder t)" "distinct (map er_id (inorder t))"
  shows "\<exists>c l r fs. rb_node_of (er_id x) t [] = Some (Rb c l x r, fs) \<and> rb_zip (Rb c l x r) fs = t"
proof -
  have "er_id x \<in> er_id ` set (inorder t)" using assms(1) by blast
  then obtain n gs where n: "rb_node_of (er_id x) t [] = Some (n, gs)" using node_of_exists by blast
  then obtain c l y r where y: "n = Rb c l y r" "er_id y = er_id x" "rb_zip n gs = t"
    using node_of_zip [OF n] by auto
  then have "y \<in> set (inorder t)" by (metis in_set_conv_decomp inorder.simps(2) inorder_zip append.assoc append_Cons)
  then have "y = x" using assms y(2) by (metis distinct_map inj_onD)
  then show ?thesis using n y by auto
qed

lemma elv_rb_del_ok:
  assumes "rb_valid t" "x \<in> set (inorder t)" "distinct (map er_id (inorder t))"
  shows "\<exists>t' xs ys. elv_rb_del t x = Some t' \<and> rb_valid t' \<and> inorder t = xs @ x # ys \<and> inorder t' = xs @ ys"
proof -
  obtain c l r fs where n: "rb_node_of (er_id x) t [] = Some (Rb c l x r, fs)" "rb_zip (Rb c l x r) fs = t"
    using node_of_order [OF assms(2,3)] by blast
  obtain t' where t': "rb_erase (Rb c l x r) fs = Some t'" "rb_valid t'"
    using rb_erase_valid [of c l x r fs] assms(1) n(2) by auto
  have "inorder t = (before fs @ inorder l) @ x # (inorder r @ after fs)" using n(2) by auto
  moreover have "inorder t' = (before fs @ inorder l) @ inorder r @ after fs"
    using inorder_erase [OF t'(1)] by simp
  moreover have "elv_rb_del t x = Some t'" using n(1) t'(1) by (simp add: elv_rb_del_def del: rb_erase.simps)
  ultimately show ?thesis using t'(2) by blast
qed

lemma rq_latter_ok:
  assumes "x \<in> set (inorder t)" "distinct (map er_id (inorder t))" "rq_latter t x = Some y"
  shows "y \<in> set (inorder t) \<and> er_id y \<noteq> er_id x"
proof -
  obtain c l r fs where n: "rb_node_of (er_id x) t [] = Some (Rb c l x r, fs)" "rb_zip (Rb c l x r) fs = t"
    using node_of_order [OF assms(1,2)] by blast
  have order: "inorder t = (before fs @ inorder l) @ x # (inorder r @ after fs)" using n(2) by auto
  have "head_of (inorder r @ after fs) = Some y"
    using assms(3) n(1) rb_next_order [of c l x r fs] by (simp add: rq_latter_def del: rb_next.simps)
  then have "y \<in> set (inorder r @ after fs)" by (cases "inorder r @ after fs") auto
  then show ?thesis using assms(2) unfolding order by (auto simp: image_iff)
qed

text \<open>The descent ends at a request at the position, or at the one place where it belongs.\<close>

lemma rb_descend_order:
  "sorted_wrt (<) (map er_pos (inorder (rb_zip t fs))) \<Longrightarrow> \<forall>x\<in>set (before fs). er_pos x < pos \<Longrightarrow>
     \<forall>x\<in>set (after fs). pos < er_pos x \<Longrightarrow>
     (case rb_descend pos t fs of
        Inl x \<Rightarrow> x \<in> set (inorder t) \<and> er_pos x = pos
      | Inr gs \<Rightarrow> rb_zip Rb_NULL gs = rb_zip t fs \<and> (\<forall>x\<in>set (before gs). er_pos x < pos) \<and>
          (\<forall>x\<in>set (after gs). pos < er_pos x))"
proof (induction pos t fs rule: rb_descend.induct)
  case (2 pos c l x r fs)
  have sorted: "sorted_wrt (<) (map er_pos (before fs @ inorder l @ x # inorder r @ after fs))"
    using 2(3) by simp
  then have r: "er_pos x < er_pos y" if "y \<in> set (inorder r)" for y
    using that by (auto simp: sorted_wrt_append)
  have l: "er_pos y < er_pos x" if "y \<in> set (inorder l)" for y
    using sorted that by (auto simp: sorted_wrt_append)
  consider (left) "pos < er_pos x" | (right) "er_pos x < pos" | (here) "pos = er_pos x" by fastforce
  then show ?case
  proof cases
    case left
    have "\<forall>y\<in>set (after (Left_of c x r # fs)). pos < er_pos y"
      using left r 2(5) less_trans [OF left] by auto
    then show ?thesis using 2(1) [OF left] 2(3,4) left by (auto split: sum.splits)
  next
    case right
    then have not: "\<not> pos < er_pos x" by simp
    have "\<forall>y\<in>set (before (Right_of c x l # fs)). er_pos y < pos"
      using right l 2(4) less_trans [OF _ right] by auto
    then show ?thesis using 2(2) [OF not right] 2(3,5) right not by (auto split: sum.splits)
  next
    case here
    then show ?thesis by simp
  qed
qed simp

lemma elv_rb_add_ok:
  assumes "rb_valid t" "by_position t"
  shows "(\<exists>x. elv_rb_add t rq = Some (Inl x) \<and> x \<in> set (inorder t) \<and> er_pos x = er_pos rq) \<or>
    (\<exists>t'. elv_rb_add t rq = Some (Inr t') \<and> rb_valid t' \<and> by_position t' \<and>
      mset (inorder t') = add_mset rq (mset (inorder t)))"
proof -
  have down: "case rb_descend (er_pos rq) t [] of
      Inl x \<Rightarrow> x \<in> set (inorder t) \<and> er_pos x = er_pos rq
    | Inr gs \<Rightarrow> rb_zip Rb_NULL gs = t \<and> (\<forall>x\<in>set (before gs). er_pos x < er_pos rq) \<and>
        (\<forall>x\<in>set (after gs). er_pos rq < er_pos x)"
    using rb_descend_order [of t "[]" "er_pos rq", unfolded rb_zip.simps(1)] assms(2) by (simp add: by_position_def)
  show ?thesis
  proof (cases "rb_descend (er_pos rq) t []")
    case (Inl x)
    then show ?thesis using down by (simp add: elv_rb_add_def)
  next
    case (Inr fs)
    then have fs: "rb_zip Rb_NULL fs = t" "\<forall>x\<in>set (before fs). er_pos x < er_pos rq" "\<forall>x\<in>set (after fs). er_pos rq < er_pos x"
      using down by simp_all
    have order: "inorder t = before fs @ after fs" using inorder_zip [of Rb_NULL fs] by (simp add: fs(1))
    have "rb_valid (rb_zip Rb_NULL fs)" using assms(1) by (simp add: fs(1))
    then have "fits_height 0 fs" "fits_color False fs" "root_black fs"
      by (auto simp: rb_valid_def balanced_zip no_red_red_zip red_zip root_black_def)
    then obtain t' where t': "rb_insert_color (rb_link_node rq) fs = Some t'" "rb_valid t'"
      using rb_insert_color_valid [of fs rq] by auto
    have order': "inorder t' = before fs @ rq # after fs"
      using inorder_insert_color [OF t'(1)] by (simp add: rb_link_node_def)
    have "by_position t'"
      using assms(2) fs(2,3) unfolding by_position_def order order' by (auto simp: sorted_wrt_append)
    moreover have "mset (inorder t') = add_mset rq (mset (inorder t))" by (simp add: order order')
    ultimately show ?thesis using Inr t' by (simp add: elv_rb_add_def)
  qed
qed

section \<open>The invariant of the scheduler\<close>

text \<open>
  Each direction has a valid tree in the order of the positions, its fifo list names the requests
  of the tree, and the next request is one of them.
\<close>

abbreviation sorted_rqs :: "deadline_data \<Rightarrow> bool \<Rightarrow> elv_rq list" where
  "sorted_rqs dd dir \<equiv> inorder (dd_sort_list dd dir)"

definition direction_ok :: "deadline_data \<Rightarrow> bool \<Rightarrow> bool" where
  "direction_ok dd dir \<longleftrightarrow> rb_valid (dd_sort_list dd dir) \<and> by_position (dd_sort_list dd dir) \<and>
     (\<forall>rq\<in>set (sorted_rqs dd dir). er_write rq = dir) \<and> distinct (map er_id (sorted_rqs dd dir)) \<and>
     mset (map er_id (sorted_rqs dd dir)) = mset (dd_fifo_list dd dir) \<and>
     (\<forall>i. dd_next_rq dd dir = Some i \<longrightarrow> i \<in> set (dd_fifo_list dd dir))"

definition deadline_ok :: "deadline_data \<Rightarrow> bool" where
  "deadline_ok dd \<longleftrightarrow> direction_ok dd False \<and> direction_ok dd True"

definition deadline_held :: "deadline_data \<Rightarrow> elv_rq multiset" where
  "deadline_held dd = cores (sorted_rqs dd False) + cores (sorted_rqs dd True)"

lemma deadline_ok_iff: "deadline_ok dd \<longleftrightarrow> (\<forall>dir. direction_ok dd dir)"
  by (auto simp: deadline_ok_def all_bool_eq)

lemma deadline_ok_dirs: "direction_ok dd dir \<Longrightarrow> direction_ok dd (\<not> dir) \<Longrightarrow> deadline_ok dd"
  by (cases dir) (auto simp: deadline_ok_def)

lemma held_dir: "deadline_held dd = cores (sorted_rqs dd dir) + cores (sorted_rqs dd (\<not> dir))"
  by (cases dir) (simp_all add: deadline_held_def add.commute)

lemma fifo_ids: "direction_ok dd dir \<Longrightarrow> set (dd_fifo_list dd dir) = er_id ` set (sorted_rqs dd dir)"
  by (metis direction_ok_def list.set_map set_mset_mset)

lemma rq_at_ok:
  assumes "direction_ok dd dir" "i \<in> set (dd_fifo_list dd dir)"
  shows "\<exists>rq. rq_at dd dir i = Some rq \<and> rq \<in> set (sorted_rqs dd dir) \<and> er_id rq = i"
proof -
  obtain rq where rq: "rq \<in> set (sorted_rqs dd dir)" "er_id rq = i" using assms fifo_ids by fastforce
  then obtain c l r fs where "rb_node_of i (dd_sort_list dd dir) [] = Some (Rb c l rq r, fs)"
    using node_of_order [OF rq(1)] assms(1) by (auto simp: direction_ok_def)
  then show ?thesis using rq by (simp add: rq_at_def)
qed

text \<open>Moving a request to the dispatch list.\<close>

definition moved :: "deadline_data rqueue \<Rightarrow> elv_rq \<Rightarrow> deadline_data rqueue \<Rightarrow> bool" where
  "moved q rq q' \<longleftrightarrow> deadline_ok (q_data q') \<and> quiet_core q q' \<and>
     cores (q_head q') + deadline_held (q_data q') = cores (q_head q) + deadline_held (q_data q) \<and>
     size (deadline_held (q_data q')) < size (deadline_held (q_data q)) \<and>
     dd_fifo_expire (q_data q') = dd_fifo_expire (q_data q) \<and>
     (\<exists>xs ys. sorted_rqs (q_data q) (er_write rq) = xs @ rq # ys \<and> sorted_rqs (q_data q') (er_write rq) = xs @ ys)"

lemma removed_fifo:
  assumes "mset (map er_id (xs @ rq # ys)) = mset is" "distinct (map er_id (xs @ rq # ys))"
  shows "mset (map er_id (xs @ ys)) = mset (removeAll (er_id rq) is)"
proof -
  have "mset (removeAll (er_id rq) is) = filter_mset (\<lambda>i. er_id rq \<noteq> i) (mset is)"
    by (simp only: removeAll_filter_not_eq mset_filter)
  also have "\<dots> = mset (filter (\<lambda>i. er_id rq \<noteq> i) (map er_id (xs @ rq # ys)))"
    by (simp only: assms(1) [symmetric] mset_filter)
  also have "filter (\<lambda>i. er_id rq \<noteq> i) (map er_id (xs @ rq # ys)) = map er_id (xs @ ys)"
  proof -
    have "filter (\<lambda>i. er_id rq \<noteq> i) (map er_id zs) = map er_id zs" if "er_id rq \<notin> er_id ` set zs" for zs
      using that by (intro filter_True) auto
    from this [of xs] this [of ys] show ?thesis using assms(2) by simp
  qed
  finally show ?thesis by simp
qed

lemma dispatch_add_tail_data [simp]: "q_data (elv_dispatch_add_tail q rq) = q_data q"
  by (rule dispatch_tail_core)

lemma latter_request_ok:
  assumes "direction_ok dd (er_write rq)" "sorted_rqs dd (er_write rq) = xs @ rq # ys"
    and "deadline_latter_request dd rq = Some i"
  shows "i \<in> er_id ` set (xs @ ys) \<and> i \<noteq> er_id rq"
proof -
  obtain y where y: "rq_latter (dd_sort_list dd (er_write rq)) rq = Some y" "er_id y = i"
    using assms(3) by (auto simp: deadline_latter_request_def)
  have "distinct (map er_id (sorted_rqs dd (er_write rq)))" "rq \<in> set (sorted_rqs dd (er_write rq))"
    using assms(1,2) by (auto simp: direction_ok_def)
  then have "y \<in> set (xs @ rq # ys)" "er_id y \<noteq> er_id rq" using rq_latter_ok [OF _ _ y(1)] assms(2) by auto
  then have "y \<in> set (xs @ ys)" by auto
  then show ?thesis using \<open>er_id y \<noteq> er_id rq\<close> y(2) by blast
qed

text \<open>The data of the scheduler after a request has left it.\<close>

definition without :: "deadline_data \<Rightarrow> elv_rq \<Rightarrow> elv_rq rb_tree \<Rightarrow> deadline_data" where
  "without dd rq t = dd\<lparr>dd_next_rq := (\<lambda>_. None)(er_write rq := deadline_latter_request dd rq),
    dd_last_sector := rq_end_sector rq,
    dd_fifo_list := (dd_fifo_list dd)(er_write rq := removeAll (er_id rq) (dd_fifo_list dd (er_write rq))),
    dd_sort_list := (dd_sort_list dd)(er_write rq := t)\<rparr>"

lemma without_ok:
  assumes ok: "deadline_ok dd" and t: "rb_valid t" "sorted_rqs dd (er_write rq) = xs @ rq # ys" "inorder t = xs @ ys"
  shows "deadline_ok (without dd rq t)"
proof -
  let ?dir = "er_write rq"
  have d: "direction_ok dd ?dir" "direction_ok dd (\<not> ?dir)" using ok by (auto simp: deadline_ok_iff)
  have mem: "\<forall>x\<in>set (xs @ ys). er_write x = ?dir" "distinct (map er_id (xs @ rq # ys))"
      "mset (map er_id (xs @ rq # ys)) = mset (dd_fifo_list dd ?dir)" "by_position (dd_sort_list dd ?dir)"
    using d(1) t(2) unfolding direction_ok_def by auto
  have fifo: "mset (map er_id (xs @ ys)) = mset (removeAll (er_id rq) (dd_fifo_list dd ?dir))"
    by (rule removed_fifo [OF mem(3,2)])
  have pos: "by_position t" using mem(4) t(2,3) by (auto simp: by_position_def sorted_wrt_append)
  have "i \<in> set (removeAll (er_id rq) (dd_fifo_list dd ?dir))" if "deadline_latter_request dd rq = Some i" for i
    using latter_request_ok [OF d(1) t(2) that] mset_eq_setD [OF fifo] by auto
  then have "direction_ok (without dd rq t) ?dir"
    using mem pos t fifo unfolding direction_ok_def by (simp add: without_def)
  moreover have "direction_ok (without dd rq t) (\<not> ?dir)"
    using d(2) unfolding direction_ok_def by (simp add: without_def)
  ultimately show ?thesis by (rule deadline_ok_dirs)
qed

lemma move_request_ok:
  assumes ok: "deadline_ok (q_data q)" and rq: "rq \<in> set (sorted_rqs (q_data q) (er_write rq))"
  shows "\<exists>q'. deadline_move_request q rq = Some q' \<and> moved q rq q'"
proof -
  let ?dd = "q_data q"
  have d: "direction_ok ?dd (er_write rq)" using ok by (simp add: deadline_ok_iff)
  then have "rb_valid (dd_sort_list ?dd (er_write rq))" "distinct (map er_id (sorted_rqs ?dd (er_write rq)))"
    by (simp_all add: direction_ok_def)
  then obtain t xs ys where t: "elv_rb_del (dd_sort_list ?dd (er_write rq)) rq = Some t" "rb_valid t"
      "sorted_rqs ?dd (er_write rq) = xs @ rq # ys" "inorder t = xs @ ys"
    using elv_rb_del_ok [OF _ rq] by blast
  let ?q = "elv_dispatch_add_tail (q\<lparr>q_data := without ?dd rq t\<rparr>) rq"
  have "deadline_latter_request ?dd rq \<noteq> Some (er_id rq)" using latter_request_ok [OF d t(3)] by blast
  then have "deadline_move_request q rq = Some ?q"
    using t(1) by (simp add: deadline_move_request_def deadline_move_to_dispatch_def deadline_remove_request_def
        deadline_del_rq_rb_def Let_def without_def)
  moreover have held: "deadline_held ?dd = add_mset (core rq) (deadline_held (without ?dd rq t))"
    using t(3,4) by (simp add: held_dir [of _ "er_write rq"] without_def)
  have "quiet_core q ?q"
    using dispatch_tail_core(1) [of "q\<lparr>q_data := without ?dd rq t\<rparr>" rq] by (simp add: quiet_core_def off_hash_def)
  then have "moved q rq ?q"
    using without_ok [OF ok t(2-4)] held t(3,4) dispatch_tail_core(3) [of "q\<lparr>q_data := without ?dd rq t\<rparr>" rq]
    by (auto simp: moved_def without_def)
  ultimately show ?thesis by blast
qed

section \<open>Adding and dispatching\<close>

lemma add_rq_rb_ok:
  assumes ok: "deadline_ok (q_data q)"
  shows "\<exists>q1 t. deadline_add_rq_rb q rq =
      Some (q1\<lparr>q_data := (q_data q1)\<lparr>dd_sort_list := (dd_sort_list (q_data q1))(er_write rq := t)\<rparr>\<rparr>) \<and>
    deadline_ok (q_data q1) \<and> quiet_core q q1 \<and> dd_fifo_expire (q_data q1) = dd_fifo_expire (q_data q) \<and>
    cores (q_head q1) + deadline_held (q_data q1) = cores (q_head q) + deadline_held (q_data q) \<and>
    rb_valid t \<and> by_position t \<and> mset (inorder t) = add_mset rq (mset (sorted_rqs (q_data q1) (er_write rq))) \<and>
    set (sorted_rqs (q_data q1) (er_write rq)) \<subseteq> set (sorted_rqs (q_data q) (er_write rq))"
proof -
  let ?dir = "er_write rq"
  have d: "direction_ok (q_data q) ?dir" using ok by (simp add: deadline_ok_iff)
  then have tree: "rb_valid (dd_sort_list (q_data q) ?dir)" "by_position (dd_sort_list (q_data q) ?dir)"
    by (simp_all add: direction_ok_def)
  from elv_rb_add_ok [OF tree, of rq] show ?thesis
  proof
    assume "\<exists>t'. elv_rb_add (dd_sort_list (q_data q) ?dir) rq = Some (Inr t') \<and> rb_valid t' \<and> by_position t' \<and>
      mset (inorder t') = add_mset rq (mset (sorted_rqs (q_data q) ?dir))"
    then obtain t where t: "elv_rb_add (dd_sort_list (q_data q) ?dir) rq = Some (Inr t)" "rb_valid t" "by_position t"
        "mset (inorder t) = add_mset rq (mset (sorted_rqs (q_data q) ?dir))" by blast
    then show ?thesis using ok by (intro exI [of _ q] exI [of _ t]) (simp add: deadline_add_rq_rb.simps [of q])
  next
    assume "\<exists>x. elv_rb_add (dd_sort_list (q_data q) ?dir) rq = Some (Inl x) \<and> x \<in> set (sorted_rqs (q_data q) ?dir) \<and>
      er_pos x = er_pos rq"
    then obtain x where x: "elv_rb_add (dd_sort_list (q_data q) ?dir) rq = Some (Inl x)"
        "x \<in> set (sorted_rqs (q_data q) ?dir)" "er_pos x = er_pos rq" by blast
    have dir: "er_write x = ?dir" using d x(2) by (simp add: direction_ok_def)
    then obtain q1 where q1: "deadline_move_request q x = Some q1" "moved q x q1"
      using move_request_ok [OF ok, of x] x(2) by auto
    then obtain xs ys where xy: "sorted_rqs (q_data q) ?dir = xs @ x # ys" "sorted_rqs (q_data q1) ?dir = xs @ ys"
      unfolding moved_def dir by blast
    have d1: "direction_ok (q_data q1) ?dir" using q1(2) by (simp add: moved_def deadline_ok_iff)
    then have tree1: "rb_valid (dd_sort_list (q_data q1) ?dir)" "by_position (dd_sort_list (q_data q1) ?dir)"
      by (simp_all add: direction_ok_def)
    have "er_pos y \<noteq> er_pos rq" if "y \<in> set (xs @ ys)" for y
      using tree(2) that x(3) xy(1) by (auto simp: by_position_def sorted_wrt_append)
    then obtain t where t: "elv_rb_add (dd_sort_list (q_data q1) ?dir) rq = Some (Inr t)" "rb_valid t" "by_position t"
        "mset (inorder t) = add_mset rq (mset (sorted_rqs (q_data q1) ?dir))"
      using elv_rb_add_ok [OF tree1, of rq] xy(2) by auto
    have "deadline_add_rq_rb q rq = deadline_add_rq_rb q1 rq"
      using x(1) q1(1) by (simp add: deadline_add_rq_rb.simps [of q])
    also have "\<dots> = Some (q1\<lparr>q_data := (q_data q1)\<lparr>dd_sort_list := (dd_sort_list (q_data q1))(?dir := t)\<rparr>\<rparr>)"
      using t(1) by (simp add: deadline_add_rq_rb.simps [of q1])
    finally show ?thesis
      using t q1(2) xy by (intro exI [of _ q1] exI [of _ t]) (auto simp: moved_def)
  qed
qed

lemma add_request_ok:
  assumes ok: "deadline_ok (q_data q)" and new: "er_id rq \<notin># image_mset er_id (deadline_held (q_data q))"
  shows "\<exists>q'. deadline_add_request jiffies q rq = Some q' \<and> deadline_ok (q_data q') \<and> quiet_core q q' \<and>
    cores (q_head q') + deadline_held (q_data q') = add_mset (core rq) (cores (q_head q) + deadline_held (q_data q))"
proof -
  let ?dir = "er_write rq"
  define rq' where "rq' = rq\<lparr>er_fifo_time := jiffies + of_int (dd_fifo_expire (q_data q) ?dir)\<rparr>"
  have rq': "er_write rq' = ?dir" "er_id rq' = er_id rq" "core rq' = core rq" by (simp_all add: rq'_def)
  obtain q1 t where q1: "deadline_add_rq_rb q rq' =
      Some (q1\<lparr>q_data := (q_data q1)\<lparr>dd_sort_list := (dd_sort_list (q_data q1))(?dir := t)\<rparr>\<rparr>)"
      "deadline_ok (q_data q1)" "quiet_core q q1"
      "cores (q_head q1) + deadline_held (q_data q1) = cores (q_head q) + deadline_held (q_data q)"
      "rb_valid t" "by_position t" "mset (inorder t) = add_mset rq' (mset (sorted_rqs (q_data q1) ?dir))"
      "set (sorted_rqs (q_data q1) ?dir) \<subseteq> set (sorted_rqs (q_data q) ?dir)"
    using add_rq_rb_ok [OF ok, of rq'] unfolding rq'(1) by blast
  define dd where "dd = (q_data q1)\<lparr>dd_sort_list := (dd_sort_list (q_data q1))(?dir := t),
    dd_fifo_list := (dd_fifo_list (q_data q1))(?dir := dd_fifo_list (q_data q1) ?dir @ [er_id rq])\<rparr>"
  have "deadline_add_request jiffies q rq = Some (q1\<lparr>q_data := dd\<rparr>)"
    using q1(1) rq'(2) by (simp add: deadline_add_request_def Let_def dd_def flip: rq'_def)
  moreover have "deadline_ok dd"
  proof (rule deadline_ok_dirs)
    have d: "direction_ok (q_data q1) ?dir" "direction_ok (q_data q1) (\<not> ?dir)"
      using q1(2) by (auto simp: deadline_ok_iff)
    have "er_id rq \<notin> er_id ` set (sorted_rqs (q_data q) ?dir)"
      using new by (auto simp: held_dir [of _ ?dir] cores_def image_image multiset.set_map)
    then have "er_id rq \<notin> er_id ` set (sorted_rqs (q_data q1) ?dir)" using q1(8) by blast
    moreover have "mset (map er_id (inorder t)) = add_mset (er_id rq) (mset (map er_id (sorted_rqs (q_data q1) ?dir)))"
      using q1(7) by (simp add: rq'(2))
    moreover have "set (inorder t) = insert rq' (set (sorted_rqs (q_data q1) ?dir))"
      using mset_eq_setD [of "inorder t" "rq' # sorted_rqs (q_data q1) ?dir"] q1(7) by simp
    moreover have "distinct (map er_id (inorder t))"
      using calculation(1,2) d(1)
        mset_eq_imp_distinct_iff [of "map er_id (inorder t)" "er_id rq # map er_id (sorted_rqs (q_data q1) ?dir)"]
      by (simp add: direction_ok_def)
    ultimately show "direction_ok dd ?dir"
      using d(1) q1(5,6) rq'(1) unfolding direction_ok_def by (auto simp: dd_def)
    show "direction_ok dd (\<not> ?dir)" using d(2) unfolding direction_ok_def by (simp add: dd_def)
  qed
  moreover have "deadline_held dd = add_mset (core rq) (deadline_held (q_data q1))"
    using q1(7) by (simp add: held_dir [of _ ?dir] dd_def cores_def rq'(3))
  ultimately show ?thesis
    using q1(3,4) by (auto simp: quiet_core_def off_hash_def)
qed

lemma tuning [simp]:
  "deadline_ok (dd\<lparr>dd_batching := b\<rparr>) = deadline_ok dd" "deadline_ok (dd\<lparr>dd_starved := b\<rparr>) = deadline_ok dd"
  "deadline_held (dd\<lparr>dd_batching := b\<rparr>) = deadline_held dd" "deadline_held (dd\<lparr>dd_starved := b\<rparr>) = deadline_held dd"
  by (simp_all add: deadline_ok_def direction_ok_def deadline_held_def)

definition one_dispatched :: "deadline_data rqueue \<Rightarrow> (bool \<times> deadline_data rqueue) option \<Rightarrow> bool" where
  "one_dispatched q res \<longleftrightarrow> (\<exists>q'. res = Some (True, q') \<and> deadline_ok (q_data q') \<and> quiet_core q q' \<and>
     size (deadline_held (q_data q')) < size (deadline_held (q_data q)) \<and>
     cores (q_head q') + deadline_held (q_data q') = cores (q_head q) + deadline_held (q_data q))"

lemma one_dispatched_tuned:
  "one_dispatched (q\<lparr>q_data := dd\<rparr>) res \<Longrightarrow> deadline_held dd = deadline_held (q_data q) \<Longrightarrow> one_dispatched q res"
  by (auto simp: one_dispatched_def quiet_core_def off_hash_def)

lemma dispatch_request_ok:
  assumes "deadline_ok (q_data q)" "i \<in> set (dd_fifo_list (q_data q) dir)"
  shows "one_dispatched q (dispatch_request q dir i)"
proof -
  let ?q = "q\<lparr>q_data := (q_data q)\<lparr>dd_batching := dd_batching (q_data q) + 1\<rparr>\<rparr>"
  have d: "direction_ok (q_data q) dir" using assms(1) by (simp add: deadline_ok_iff)
  obtain rq where rq: "rq_at (q_data q) dir i = Some rq" "rq \<in> set (sorted_rqs (q_data q) dir)"
    using rq_at_ok [OF d assms(2)] by blast
  moreover have "er_write rq = dir" using d rq(2) by (simp add: direction_ok_def)
  ultimately obtain q' where q': "deadline_move_request ?q rq = Some q'" "moved ?q rq q'"
    using move_request_ok [of ?q rq] assms(1) by auto
  have "one_dispatched ?q (dispatch_request q dir i)"
    using rq(1) q' by (auto simp: one_dispatched_def dispatch_request_def moved_def)
  then show ?thesis by (rule one_dispatched_tuned) simp
qed

lemma dispatch_find_ok:
  assumes "deadline_ok (q_data q)" "dd_fifo_list (q_data q) dir \<noteq> []"
  shows "one_dispatched q (dispatch_find_request jiffies q dir)"
proof -
  obtain first rest where fifo: "dd_fifo_list (q_data q) dir = first # rest" using assms(2) by (cases "dd_fifo_list (q_data q) dir") auto
  have d: "direction_ok (q_data q) dir" using assms(1) by (simp add: deadline_ok_iff)
  obtain rq where rq: "rq_at (q_data q) dir first = Some rq" using rq_at_ok [OF d, of first] fifo by auto
  let ?i = "if deadline_check_fifo jiffies rq then first else case dd_next_rq (q_data q) dir of None \<Rightarrow> first | Some i \<Rightarrow> i"
  let ?q = "q\<lparr>q_data := (q_data q)\<lparr>dd_batching := 0\<rparr>\<rparr>"
  have "?i \<in> set (dd_fifo_list (q_data ?q) dir)"
    using d fifo by (auto simp: direction_ok_def split: option.splits)
  then have "one_dispatched ?q (dispatch_request ?q dir ?i)" using assms(1) by (intro dispatch_request_ok) simp_all
  then have "one_dispatched q (dispatch_request ?q dir ?i)" by (rule one_dispatched_tuned) simp
  then show ?thesis by (simp add: dispatch_find_request_def Let_def fifo rq)
qed

lemma tree_of_fifo: "direction_ok dd dir \<Longrightarrow> dd_fifo_list dd dir \<noteq> [] \<Longrightarrow> dd_sort_list dd dir \<noteq> Rb_NULL"
  using fifo_ids [of dd dir] by (cases "dd_sort_list dd dir") auto

lemma dispatch_writes_ok:
  assumes "deadline_ok (q_data q)" "dd_fifo_list (q_data q) True \<noteq> []"
  shows "one_dispatched q (dispatch_writes jiffies q)"
proof -
  let ?q = "q\<lparr>q_data := (q_data q)\<lparr>dd_starved := 0\<rparr>\<rparr>"
  have "one_dispatched ?q (dispatch_find_request jiffies ?q True)" using assms by (intro dispatch_find_ok) simp_all
  then have "one_dispatched q (dispatch_find_request jiffies ?q True)" by (rule one_dispatched_tuned) simp
  moreover have "dd_sort_list (q_data q) True \<noteq> Rb_NULL"
    using tree_of_fifo assms by (auto simp: deadline_ok_def)
  ultimately show ?thesis by (simp add: dispatch_writes_def)
qed

lemma deadline_select_ok:
  assumes ok: "deadline_ok (q_data q)" and some: "dd_fifo_list (q_data q) False \<noteq> [] \<or> dd_fifo_list (q_data q) True \<noteq> []"
  shows "one_dispatched q (deadline_select jiffies q)"
proof (cases "dd_fifo_list (q_data q) False \<noteq> []")
  case reads: True
  then have tree: "dd_sort_list (q_data q) False \<noteq> Rb_NULL" using tree_of_fifo ok by (auto simp: deadline_ok_def)
  let ?q = "q\<lparr>q_data := (q_data q)\<lparr>dd_starved := dd_starved (q_data q) + 1\<rparr>\<rparr>"
  show ?thesis
  proof (cases "dd_fifo_list (q_data q) True \<noteq> []")
    case True
    have "one_dispatched ?q (dispatch_writes jiffies ?q)" "one_dispatched ?q (dispatch_find_request jiffies ?q False)"
      using ok reads True by (intro dispatch_writes_ok dispatch_find_ok; simp)+
    then have "one_dispatched q (dispatch_writes jiffies ?q)" "one_dispatched q (dispatch_find_request jiffies ?q False)"
      by (auto intro: one_dispatched_tuned)
    then show ?thesis using reads True tree by (simp add: deadline_select_def Let_def)
  next
    case False
    then show ?thesis using reads tree dispatch_find_ok [OF ok reads] by (simp add: deadline_select_def Let_def)
  qed
next
  case False
  then show ?thesis using some dispatch_writes_ok [OF ok] by (simp add: deadline_select_def Let_def)
qed

lemma held_empty:
  assumes "deadline_ok dd"
  shows "deadline_held dd = {#} \<longleftrightarrow> dd_fifo_list dd False = [] \<and> dd_fifo_list dd True = []"
proof -
  have "dd_fifo_list dd dir = [] \<longleftrightarrow> sorted_rqs dd dir = []" for dir
    using fifo_ids [of dd dir] assms by (auto simp: deadline_ok_iff)
  then show ?thesis by (auto simp: deadline_held_def cores_def)
qed

lemma dispatch_requests_ok:
  assumes ok: "deadline_ok (q_data q)" and some: "deadline_held (q_data q) \<noteq> {#}"
  shows "one_dispatched q (deadline_dispatch_requests jiffies q force)"
proof -
  have next_in: "i \<in> set (dd_fifo_list (q_data q) dir)" if "dd_next_rq (q_data q) dir = Some i" for i dir
    using that ok by (simp add: deadline_ok_iff direction_ok_def)
  have "one_dispatched q (deadline_select jiffies q)"
    using deadline_select_ok [OF ok] some held_empty [OF ok] by auto
  then show ?thesis
    using dispatch_request_ok [OF ok] next_in
    by (auto simp: deadline_dispatch_requests_def Let_def split: option.splits)
qed

lemma dispatch_requests_none:
  assumes ok: "deadline_ok (q_data q)" and none: "deadline_held (q_data q) = {#}"
  shows "deadline_dispatch_requests jiffies q force = Some (False, q)"
proof -
  have fifo: "dd_fifo_list (q_data q) dir = []" for dir using held_empty [OF ok] none by (cases dir) auto
  then have "dd_next_rq (q_data q) dir = None" for dir
    using ok by (cases "dd_next_rq (q_data q) dir") (auto simp: deadline_ok_iff direction_ok_def)
  then show ?thesis using fifo by (simp add: deadline_dispatch_requests_def deadline_select_def Let_def)
qed

interpretation deadline: io_scheduler "iosched_deadline jiffies" deadline_held deadline_ok for jiffies
proof unfold_locales
  fix q :: "deadline_data rqueue" and force
  assume "deadline_ok (q_data q)" "deadline_held (q_data q) \<noteq> {#}"
  then show "\<exists>q'. eo_dispatch (iosched_deadline jiffies) q force = Some (True, q') \<and> deadline_ok (q_data q') \<and>
      quiet_core q q' \<and> size (deadline_held (q_data q')) < size (deadline_held (q_data q)) \<and>
      cores (q_head q') + deadline_held (q_data q') = cores (q_head q) + deadline_held (q_data q)"
    using dispatch_requests_ok by (simp add: iosched_deadline_def one_dispatched_def)
next
  fix q :: "deadline_data rqueue" and rq :: elv_rq
  assume "deadline_ok (q_data q)" "er_id rq \<notin># image_mset er_id (deadline_held (q_data q))"
  then show "\<exists>q'. eo_add_req (iosched_deadline jiffies) q rq = Some q' \<and> deadline_ok (q_data q') \<and> quiet_core q q' \<and>
      cores (q_head q') + deadline_held (q_data q') = add_mset (core rq) (cores (q_head q) + deadline_held (q_data q))"
    using add_request_ok by (simp add: iosched_deadline_def)
qed (auto simp: iosched_deadline_def dispatch_requests_none deadline_queue_empty_def held_empty)

text \<open>
  C22: A request of the scrubber on a queue with the deadline scheduler: the insertion ends, also when
  requests with the same position have to be moved away first, and loses nothing; fetching as often as requests wait
  then hands every one of them to the driver, with its position and length.
\<close>

theorem deadline_serves_scrub_request:
  assumes "sound_queue deadline_held deadline_ok q" "prepares F" "takes_only (iosched_deadline jiffies) F"
    and "er_id rq \<notin># queued_ids deadline_held q" "er_type rq = TYPE_BLOCK_PC" "\<not> er_discard rq"
      "\<not> er_softbarrier rq" "\<not> er_hardbarrier rq" "er_id rq \<noteq> q_pre_flush_rq q" "er_id rq \<noteq> q_post_flush_rq q"
  shows "\<exists>q' rqs q''. blk_execute_scsi_nowait (iosched_deadline jiffies) F q rq = Some q' \<and>
    sound_queue deadline_held deadline_ok q' \<and> all_tags deadline_held q' = add_mset (tag rq) (all_tags deadline_held q) \<and>
    fetch_n (iosched_deadline jiffies) F (size (queued deadline_held q')) q' = Some (rqs, q'') \<and>
    queued deadline_held q'' = {#} \<and> mset (map tag (q_started q'')) = add_mset (tag rq) (all_tags deadline_held q)"
proof -
  obtain q' where q': "blk_execute_scsi_nowait (iosched_deadline jiffies) F q rq = Some q'"
      "sound_queue deadline_held deadline_ok q'" "all_tags deadline_held q' = add_mset (tag rq) (all_tags deadline_held q)"
    using deadline.executes [OF assms] by blast
  then show ?thesis using deadline.fetches_all [OF q'(2) assms(2), of jiffies] by auto
qed

lemma init_queue_ok [simp]: "deadline_ok (deadline_init_queue hz)" "deadline_held (deadline_init_queue hz) = {#}"
  by (simp_all add: deadline_ok_def direction_ok_def deadline_init_queue_def by_position_def rb_valid_def deadline_held_def)

theorem deadline_serves_scrub_request_witness:
  "\<exists>q' rqs q''. blk_execute_scsi_nowait (iosched_deadline 7) busy_driver (idle_queue (deadline_init_queue 250)) (scrub_rq 1 64) = Some q' \<and>
    sound_queue deadline_held deadline_ok q' \<and> all_tags deadline_held q' = {#(1, 64, 0)#} \<and>
    fetch_n (iosched_deadline 7) busy_driver (size (queued deadline_held q')) q' = Some (rqs, q'') \<and>
    queued deadline_held q'' = {#} \<and> mset (map tag (q_started q'')) = {#(1, 64, 0)#}"
  using deadline_serves_scrub_request [of "idle_queue (deadline_init_queue 250)" busy_driver 7 "scrub_rq 1 64"]
  by (simp add: sound_queue_def queued_ids_def queued_def off_hash_def all_tags_def queued_tags_def tag_def idle_queue_def scrub_rq_def)

lemma rb_find_order: "by_position t \<Longrightarrow> x \<in> set (inorder t) \<Longrightarrow> elv_rb_find t (er_pos x) = Some x"
proof (induction t)
  case (Rb c l y r)
  then show ?case by (auto simp: by_position_def sorted_wrt_append)
qed simp

lemma rq_pos: "er_pos (scrub_rq i pos) = pos"
  by (simp add: scrub_rq_def)

text \<open>
  C24: The trees of the requests are red-black trees in the order of the positions: adding a request returns the one that
  is already at its position or a tree with one request more, deleting takes out exactly that
  request, looking up a position finds the request there, and no path in a tree of \<open>n\<close> requests is longer than \<open>2 log (n + 1)\<close>.
\<close>

theorem request_tree_is_search_tree:
  assumes "rb_valid t" "by_position t" "distinct (map er_id (inorder t))"
  shows "(case elv_rb_add t rq of
      Some (Inl x) \<Rightarrow> x \<in> set (inorder t) \<and> er_pos x = er_pos rq
    | Some (Inr t') \<Rightarrow> rb_valid t' \<and> by_position t' \<and> elv_rb_find t' (er_pos rq) = Some rq \<and>
        mset (inorder t') = add_mset rq (mset (inorder t))
    | None \<Rightarrow> False) \<and>
    (\<forall>x\<in>set (inorder t). elv_rb_find t (er_pos x) = Some x \<and>
      (\<exists>t'. elv_rb_del t x = Some t' \<and> rb_valid t' \<and> by_position t' \<and>
        mset (inorder t) = add_mset x (mset (inorder t')))) \<and>
    (\<exists>h. rb_depth t \<le> 2 * h \<and> 2 ^ h \<le> Suc (length (inorder t)))"
proof (intro conjI ballI)
  show "case elv_rb_add t rq of
      Some (Inl x) \<Rightarrow> x \<in> set (inorder t) \<and> er_pos x = er_pos rq
    | Some (Inr t') \<Rightarrow> rb_valid t' \<and> by_position t' \<and> elv_rb_find t' (er_pos rq) = Some rq \<and>
        mset (inorder t') = add_mset rq (mset (inorder t))
    | None \<Rightarrow> False"
    using elv_rb_add_ok [OF assms(1,2), of rq]
    by (auto intro!: rb_find_order simp flip: set_mset_mset)
next
  fix x assume x: "x \<in> set (inorder t)"
  show "elv_rb_find t (er_pos x) = Some x" using rb_find_order assms(2) x .
  obtain t' xs ys where t': "elv_rb_del t x = Some t'" "rb_valid t'" "inorder t = xs @ x # ys" "inorder t' = xs @ ys"
    using elv_rb_del_ok [OF assms(1) x assms(3)] by blast
  moreover have "by_position t'" using assms(2) t'(3,4) by (auto simp: by_position_def sorted_wrt_append)
  ultimately show "\<exists>t'. elv_rb_del t x = Some t' \<and> rb_valid t' \<and> by_position t' \<and>
      mset (inorder t) = add_mset x (mset (inorder t'))" by auto
qed (rule rb_valid_depth [OF assms(1)])

theorem request_tree_is_search_tree_witness:
  "let t = Rb RB_BLACK (Rb RB_RED Rb_NULL (scrub_rq 1 10) Rb_NULL) (scrub_rq 2 20) Rb_NULL in
    (case elv_rb_add t (scrub_rq 3 15) of
      Some (Inl x) \<Rightarrow> x \<in> set (inorder t) \<and> er_pos x = 15
    | Some (Inr t') \<Rightarrow> rb_valid t' \<and> by_position t' \<and> elv_rb_find t' 15 = Some (scrub_rq 3 15) \<and>
        mset (inorder t') = add_mset (scrub_rq 3 15) (mset (inorder t))
    | None \<Rightarrow> False) \<and>
    (\<forall>x\<in>set (inorder t). elv_rb_find t (er_pos x) = Some x \<and>
      (\<exists>t'. elv_rb_del t x = Some t' \<and> rb_valid t' \<and> by_position t' \<and>
        mset (inorder t) = add_mset x (mset (inorder t')))) \<and>
    (\<exists>h. rb_depth t \<le> 2 * h \<and> 2 ^ h \<le> Suc (length (inorder t)))"
proof -
  let ?t = "Rb RB_BLACK (Rb RB_RED Rb_NULL (scrub_rq 1 10) Rb_NULL) (scrub_rq 2 20) Rb_NULL"
  have t: "rb_valid ?t" "by_position ?t" "distinct (map er_id (inorder ?t))"
    by (simp_all add: rb_valid_def by_position_def scrub_rq_def)
  show ?thesis
    unfolding Let_def using request_tree_is_search_tree [OF t, of "scrub_rq 3 15"] unfolding rq_pos .
qed

end
